theory Spec2Isabelle
  imports Complex_Main "HOL-Library.Log_Nat"
begin

section \<open>Strings\<close>

text \<open>
  A JavaScript string is a sequence of UTF-16 code units. A code unit below 256 is
  represented by the Isabelle character with that code, so the strings of this
  development are exactly the Latin-1 strings; every literal of the source is one.
\<close>

definition charCode :: "char \<Rightarrow> nat" where
  "charCode c = of_char c"

text \<open>
  \<^verbatim>\<open>String.prototype.toLowerCase\<close>: on Latin-1 the upper-case letters are
  \<open>A\<close>..\<open>Z\<close> (65..90) and the accented capitals 192..214 and 216..222; each maps to
  the code unit 32 above it. Every other code unit below 256 is left alone.
\<close>

definition lowerChar :: "char \<Rightarrow> char" where
  "lowerChar c =
     (if (65 \<le> charCode c \<and> charCode c \<le> 90) \<or> (192 \<le> charCode c \<and> charCode c \<le> 214)
         \<or> (216 \<le> charCode c \<and> charCode c \<le> 222)
      then char_of (charCode c + 32) else c)"

definition toLowerCase :: "string \<Rightarrow> string" where
  "toLowerCase s = map lowerChar s"

fun startsWith :: "string \<Rightarrow> string \<Rightarrow> bool" where
  "startsWith s [] = True"
| "startsWith [] (k # ks) = False"
| "startsWith (c # cs) (k # ks) = (c = k \<and> startsWith cs ks)"

text \<open>\<^verbatim>\<open>s.includes(k)\<close>: \<open>k\<close> occurs in \<open>s\<close> as a contiguous run of code units.\<close>

fun includesStr :: "string \<Rightarrow> string \<Rightarrow> bool" where
  "includesStr [] k = (k = [])"
| "includesStr (c # cs) k = (startsWith (c # cs) k \<or> includesStr cs k)"

section \<open>Category normaliser and colour table (parser.ts, lines 4 to 55)\<close>

definition CATEGORY_COLORS :: "(string \<times> string) list" where
  "CATEGORY_COLORS =
     [(''Restaurant'', ''#ef4444''),
      (''Groceries'', ''#f97316''),
      (''Gas & Fuel'', ''#eab308''),
      (''Shopping'', ''#22c55e''),
      (''Entertainment'', ''#06b6d4''),
      (''Subscriptions'', ''#3b82f6''),
      (''Travel'', ''#8b5cf6''),
      (''Health'', ''#ec4899''),
      (''Fees'', ''#6b7280''),
      (''Other'', ''#a3a3a3'')]"

text \<open>
  The third keyword of the first group is, in the source file, the five code units
  \<open>c a f\<close>, 195 (capital A with tilde) and 169 (copyright sign).
\<close>

definition cafe_keyword :: string where
  "cafe_keyword = ''caf'' @ [char_of (195 :: nat), char_of (169 :: nat)]"

definition simplifyCategory :: "string \<Rightarrow> string" where
  "simplifyCategory category =
     (let lower = toLowerCase category in
      if includesStr lower ''restaurant'' \<or> includesStr lower ''food''
         \<or> includesStr lower cafe_keyword \<or> includesStr lower ''fast food''
      then ''Restaurant''
      else if includesStr lower ''groceries'' \<or> includesStr lower ''supermarket''
      then ''Groceries''
      else if includesStr lower ''gas'' \<or> includesStr lower ''fuel'' \<or> includesStr lower ''auto''
      then ''Gas & Fuel''
      else if includesStr lower ''merchandise'' \<or> includesStr lower ''supplies''
         \<or> includesStr lower ''clothing'' \<or> includesStr lower ''electronics''
      then ''Shopping''
      else if includesStr lower ''entertainment'' \<or> includesStr lower ''movie''
         \<or> includesStr lower ''theater''
      then ''Entertainment''
      else if includesStr lower ''computer services'' \<or> includesStr lower ''telecommunications''
      then ''Subscriptions''
      else if includesStr lower ''travel'' \<or> includesStr lower ''airline''
         \<or> includesStr lower ''lodging'' \<or> includesStr lower ''rental''
      then ''Travel''
      else if includesStr lower ''drug'' \<or> includesStr lower ''pharmacy''
         \<or> includesStr lower ''health''
      then ''Health''
      else if includesStr lower ''fee'' \<or> includesStr lower ''adjustment''
         \<or> includesStr lower ''interest''
      then ''Fees''
      else ''Other'')"

text \<open>
  \<^verbatim>\<open>CATEGORY_COLORS[simplified] || CATEGORY_COLORS['Other']\<close>: a missing key and
  an empty colour string are both falsy.
\<close>

definition colorOf :: "string \<Rightarrow> string option" where
  "colorOf k = map_of CATEGORY_COLORS k"

definition otherColor :: string where
  "otherColor = (case colorOf ''Other'' of Some c \<Rightarrow> c | None \<Rightarrow> [])"

definition getCategoryColor :: "string \<Rightarrow> string" where
  "getCategoryColor category =
     (let simplified = simplifyCategory category in
      case colorOf simplified of
        Some c \<Rightarrow> if c = [] then otherColor else c
      | None \<Rightarrow> otherColor)"

definition canonical :: "string list" where
  "canonical = [''Restaurant'', ''Groceries'', ''Gas & Fuel'', ''Shopping'', ''Entertainment'',
     ''Subscriptions'', ''Travel'', ''Health'', ''Fees'', ''Other'']"

section \<open>Numbers\<close>

text \<open>
  A JavaScript number is an IEEE 754 binary64 value: not-a-number, an infinity, or a finite
  value, kept here as the rational it denotes. The two zeros are not told apart (nothing
  in the program observes the sign of a zero). \<open>round64\<close> rounds an exact rational to
  the nearest binary64 value, ties to the even significand, with gradual underflow
  (least exponent \<open>-1074\<close>) and overflow to an infinity from \<open>2^1024\<close> on.
\<close>

datatype number = NaN | PInf | NInf | Fin rat

definition pow2 :: "int \<Rightarrow> rat" where
  "pow2 e = (if 0 \<le> e then 2 ^ nat e else 1 / 2 ^ nat (- e))"

text \<open>The integer part of the binary logarithm of a positive rational.\<close>

definition ilog2 :: "rat \<Rightarrow> int" where
  "ilog2 a =
     (if 1 \<le> a then int (floorlog 2 (nat \<lfloor>a\<rfloor>)) - 1
      else - int (floorlog 2 (nat (\<lceil>1 / a\<rceil> - 1))))"

definition roundHalfEven :: "rat \<Rightarrow> int" where
  "roundHalfEven x =
     (let f = \<lfloor>x\<rfloor>; d = x - of_int f in
      if d < 1 / 2 then f
      else if 1 / 2 < d then f + 1
      else if even f then f else f + 1)"

definition round64 :: "rat \<Rightarrow> number" where
  "round64 x =
     (if x = 0 then Fin 0
      else
        let a = \<bar>x\<bar>;
            e = max (ilog2 a - 52) (- 1074);
            r = of_int (roundHalfEven (a / pow2 e)) * pow2 e
        in if pow2 1024 \<le> r then (if 0 < x then PInf else NInf)
           else Fin (if 0 < x then r else - r))"

fun num_add :: "number \<Rightarrow> number \<Rightarrow> number" where
  "num_add NaN y = NaN"
| "num_add x NaN = NaN"
| "num_add PInf NInf = NaN"
| "num_add NInf PInf = NaN"
| "num_add PInf y = PInf"
| "num_add x PInf = PInf"
| "num_add NInf y = NInf"
| "num_add x NInf = NInf"
| "num_add (Fin a) (Fin b) = round64 (a + b)"

fun num_neg :: "number \<Rightarrow> number" where
  "num_neg NaN = NaN"
| "num_neg PInf = NInf"
| "num_neg NInf = PInf"
| "num_neg (Fin a) = Fin (- a)"

definition num_sub :: "number \<Rightarrow> number \<Rightarrow> number" where
  "num_sub x y = num_add x (num_neg y)"

text \<open>The comparisons \<^verbatim>\<open><\<close> and \<^verbatim>\<open><=\<close>: false as soon as an operand is not a number.\<close>

fun num_lt :: "number \<Rightarrow> number \<Rightarrow> bool" where
  "num_lt NaN y = False"
| "num_lt x NaN = False"
| "num_lt x NInf = False"
| "num_lt PInf y = False"
| "num_lt NInf y = True"
| "num_lt x PInf = True"
| "num_lt (Fin a) (Fin b) = (a < b)"

definition num_le :: "number \<Rightarrow> number \<Rightarrow> bool" where
  "num_le x y = (x \<noteq> NaN \<and> y \<noteq> NaN \<and> (x = y \<or> num_lt x y))"

definition isNaN :: "number \<Rightarrow> bool" where
  "isNaN x = (x = NaN)"

section \<open>Built-in string and number functions\<close>

text \<open>
  White space as \<^verbatim>\<open>trim\<close>, \<^verbatim>\<open>parseInt\<close>, \<^verbatim>\<open>parseFloat\<close> and the class
  \<^verbatim>\<open>\s\<close> see it, on Latin-1: tab, line feed, vertical tab, form feed, carriage
  return, space and no-break space.
\<close>

definition isWhite :: "char \<Rightarrow> bool" where
  "isWhite c = (charCode c \<in> {9, 10, 11, 12, 13, 32, 160})"

definition trimStart :: "string \<Rightarrow> string" where
  "trimStart s = dropWhile isWhite s"

definition trim :: "string \<Rightarrow> string" where
  "trim s = rev (dropWhile isWhite (rev (dropWhile isWhite s)))"

text \<open>The class \<^verbatim>\<open>\d\<close>: the ten ASCII digits.\<close>

definition isDigit :: "char \<Rightarrow> bool" where
  "isDigit c = (48 \<le> charCode c \<and> charCode c \<le> 57)"

definition isHexDigit :: "char \<Rightarrow> bool" where
  "isHexDigit c = (isDigit c \<or> (97 \<le> charCode c \<and> charCode c \<le> 102)
      \<or> (65 \<le> charCode c \<and> charCode c \<le> 70))"

definition digitValue :: "char \<Rightarrow> nat" where
  "digitValue c =
     (if isDigit c then charCode c - 48
      else if 97 \<le> charCode c then charCode c - 87
      else charCode c - 55)"

definition digitsValue :: "nat \<Rightarrow> string \<Rightarrow> nat" where
  "digitsValue radix ds = foldl (\<lambda>acc c. acc * radix + digitValue c) 0 ds"

definition pow10 :: "int \<Rightarrow> rat" where
  "pow10 e = (if 0 \<le> e then 10 ^ nat e else 1 / 10 ^ nat (- e))"

text \<open>
  \<^verbatim>\<open>s.split(sep)\<close> for a separator that matches exactly one code unit (the
  strings \<^verbatim>\<open>'/'\<close> and \<^verbatim>\<open>'\n'\<close>, the pattern \<^verbatim>\<open>/\d/\<close>): the pieces between
  the matches. The result always has a first piece.
\<close>

fun splitOn :: "(char \<Rightarrow> bool) \<Rightarrow> string \<Rightarrow> string list" where
  "splitOn sep [] = [[]]"
| "splitOn sep (c # cs) =
     (if sep c then [] # splitOn sep cs
      else (case splitOn sep cs of
              w # ws \<Rightarrow> (c # w) # ws
            | [] \<Rightarrow> [[c]]))"

text \<open>\<^verbatim>\<open>xs[i]\<close> on an array: \<open>None\<close> stands for \<^verbatim>\<open>undefined\<close>.\<close>

fun elemAt :: "'a list \<Rightarrow> nat \<Rightarrow> 'a option" where
  "elemAt [] i = None"
| "elemAt (x # xs) 0 = Some x"
| "elemAt (x # xs) (Suc i) = elemAt xs i"

text \<open>\<^verbatim>\<open>xs.join(sep)\<close> on an array of strings.\<close>

fun joinStr :: "string \<Rightarrow> string list \<Rightarrow> string" where
  "joinStr sep [] = []"
| "joinStr sep [x] = x"
| "joinStr sep (x # y # ys) = x @ sep @ joinStr sep (y # ys)"

text \<open>An optional leading sign: the sign and the rest of the string.\<close>

fun takeSign :: "string \<Rightarrow> int \<times> string" where
  "takeSign [] = (1, [])"
| "takeSign (c # cs) =
     (if c = CHR ''-'' then (- 1, cs) else if c = CHR ''+'' then (1, cs) else (1, c # cs))"

text \<open>
  \<^verbatim>\<open>parseInt(s)\<close> with no radix: leading white space, a sign, the prefix
  \<^verbatim>\<open>0x\<close> or \<^verbatim>\<open>0X\<close> for radix 16, then the longest run of digits; no digit
  gives \<open>NaN\<close>.
\<close>

definition parseInt :: "string \<Rightarrow> number" where
  "parseInt s =
     (let (sign, r) = takeSign (trimStart s);
          hex = (startsWith r ''0x'' \<or> startsWith r ''0X'');
          z = (if hex then takeWhile isHexDigit (drop 2 r) else takeWhile isDigit r)
      in if z = [] then NaN
         else round64 (of_int (sign * int (digitsValue (if hex then 16 else 10) z))))"

text \<open>The exponent part of a decimal literal: \<open>e\<close> or \<open>E\<close>, a sign, at least one digit.\<close>

definition exponentPart :: "string \<Rightarrow> int" where
  "exponentPart r =
     (case r of
        [] \<Rightarrow> 0
      | c # cs \<Rightarrow>
          if c = CHR ''e'' \<or> c = CHR ''E''
          then (let (sign, ds) = takeSign cs; z = takeWhile isDigit ds
                in if z = [] then 0 else sign * int (digitsValue 10 z))
          else 0)"

text \<open>
  \<^verbatim>\<open>parseFloat(s)\<close>: leading white space, then the longest prefix that is a
  decimal literal (a sign, then \<^verbatim>\<open>Infinity\<close> or digits with an optional
  fraction and exponent); no such prefix gives \<open>NaN\<close>.
\<close>

definition parseFloat :: "string \<Rightarrow> number" where
  "parseFloat s =
     (let (sign, r) = takeSign (trimStart s) in
      if startsWith r ''Infinity'' then (if sign = 1 then PInf else NInf)
      else
        let ip = takeWhile isDigit r;
            r1 = dropWhile isDigit r;
            dot = (r1 \<noteq> [] \<and> hd r1 = CHR ''.'');
            fp = (if dot then takeWhile isDigit (tl r1) else []);
            r2 = (if dot then dropWhile isDigit (tl r1) else r1)
        in if ip = [] \<and> fp = [] then NaN
           else round64 (of_int sign
                  * (of_nat (digitsValue 10 ip) + of_nat (digitsValue 10 fp) * pow10 (- int (length fp)))
                  * pow10 (exponentPart r2)))"

text \<open>Decimal digits of a natural number.\<close>

fun showNat :: "nat \<Rightarrow> string" where
  "showNat n =
     (if n < 10 then [char_of (48 + n)]
      else showNat (n div 10) @ [char_of (48 + n mod 10)])"

declare showNat.simps [simp del]

text \<open>
  \<^verbatim>\<open>Number::toString\<close> of a finite value \<open>x\<close> from \<open>10^21\<close> on (an integer with
  \<open>n\<close> digits): the fewest significant digits \<open>s\<close> that read back as \<open>x\<close>, in
  exponent notation.
\<close>

definition readsBack :: "rat \<Rightarrow> nat \<Rightarrow> nat \<Rightarrow> nat \<Rightarrow> bool" where
  "readsBack x n k s = (round64 (of_nat s * 10 ^ (n - k)) = Fin x)"

definition digitsFor :: "rat \<Rightarrow> nat \<Rightarrow> nat \<Rightarrow> nat option" where
  "digitsFor x n k =
     (let lo = nat \<lfloor>x / 10 ^ (n - k)\<rfloor>; hi = lo + 1;
          okLo = readsBack x n k lo;
          okHi = (hi < 10 ^ k \<and> readsBack x n k hi);
          dLo = x - of_nat lo * 10 ^ (n - k);
          dHi = of_nat hi * 10 ^ (n - k) - x
      in if okLo \<and> okHi then Some (if dLo < dHi \<or> (dLo = dHi \<and> even lo) then lo else hi)
         else if okLo then Some lo
         else if okHi then Some hi
         else None)"

fun shortestDigits :: "rat \<Rightarrow> nat \<Rightarrow> nat \<Rightarrow> nat \<Rightarrow> string" where
  "shortestDigits x n k 0 = showNat (nat \<lfloor>x\<rfloor>)"
| "shortestDigits x n k (Suc fuel) =
     (case digitsFor x n k of
        Some s \<Rightarrow> showNat s
      | None \<Rightarrow> shortestDigits x n (Suc k) fuel)"

definition bigToString :: "rat \<Rightarrow> string" where
  "bigToString x =
     (let n = length (showNat (nat \<lfloor>x\<rfloor>)) in
      if readsBack x (Suc n) 1 1 then ''1e+'' @ showNat n
      else
        let ds = shortestDigits x n 1 n in
        (if length ds = 1 then ds else take 1 ds @ ''.'' @ drop 1 ds) @ ''e+'' @ showNat (n - 1))"

text \<open>
  \<^verbatim>\<open>x.toFixed(2)\<close>: the integer \<open>n\<close> nearest to \<open>100 x\<close> (the larger one at a
  tie) written with a point before its last two digits.
\<close>

definition toFixed2 :: "number \<Rightarrow> string" where
  "toFixed2 v =
     (case v of
        NaN \<Rightarrow> ''NaN''
      | PInf \<Rightarrow> ''Infinity''
      | NInf \<Rightarrow> ''-Infinity''
      | Fin x \<Rightarrow>
          let s = (if x < 0 then ''-'' else []); a = \<bar>x\<bar> in
          if 10 ^ 21 \<le> a then s @ bigToString a
          else
            let m = showNat (nat \<lfloor>a * 100 + 1 / 2\<rfloor>);
                m' = replicate (3 - length m) (CHR ''0'') @ m
            in s @ take (length m' - 2) m' @ ''.'' @ drop (length m' - 2) m')"

section \<open>Dates and the host\<close>

text \<open>
  A \<^verbatim>\<open>Date\<close> object holds a time value, a whole number of milliseconds since the
  epoch, or is the invalid date, whose time value is \<open>NaN\<close>.
\<close>

datatype jsdate = InvalidDate | DateTV int

fun getTime :: "jsdate \<Rightarrow> number" where
  "getTime InvalidDate = NaN"
| "getTime (DateTV t) = Fin (of_int t)"

type_synonym row = "string \<rightharpoonup> string"

text \<open>
  What the program takes from its surroundings: the clock, the engine's reading of a
  free-form date string, its local-time calendar (time zone), its locale's date format,
  the random identifiers, and the third-party tabular parser (called with a header row,
  empty lines skipped, header names trimmed), whose rows map a column name to the text
  of the cell.
\<close>

record host =
  currentTime :: int
  dateFromString :: "string \<Rightarrow> jsdate"
  dateFromParts :: "int \<Rightarrow> int \<Rightarrow> int \<Rightarrow> jsdate"
  toLocaleDateString :: "jsdate \<Rightarrow> string"
  randomId :: "nat \<Rightarrow> string"
  papaParse :: "string \<Rightarrow> row list"

text \<open>
  \<^verbatim>\<open>new Date(y, m, d)\<close> on three numbers: an argument that is not finite gives the
  invalid date; finite arguments (whole numbers here, as \<^verbatim>\<open>parseInt\<close> returns them)
  go to the host's calendar.
\<close>

fun newDate3 :: "host \<Rightarrow> number \<Rightarrow> number \<Rightarrow> number \<Rightarrow> jsdate" where
  "newDate3 h (Fin y) (Fin m) (Fin d) = dateFromParts h \<lfloor>y\<rfloor> \<lfloor>m\<rfloor> \<lfloor>d\<rfloor>"
| "newDate3 h y m d = InvalidDate"

subsection \<open>A host for evaluating examples\<close>

text \<open>
  A host in the time zone UTC with the locale en-US: the calendar arithmetic of the
  language standard (years 0 to 99 count from 1900, months and days overflow into the
  next unit, time values beyond \<open>8.64 * 10^15\<close> are invalid), ISO dates
  \<^verbatim>\<open>YYYY-MM-DD\<close> as the only free-form strings it reads.
\<close>

definition daysFromCivil :: "int \<Rightarrow> int \<Rightarrow> int \<Rightarrow> int" where
  "daysFromCivil y m d =
     (let y' = (if m \<le> 2 then y - 1 else y);
          era = y' div 400;
          yoe = y' - era * 400;
          doy = (153 * (if 2 < m then m - 3 else m + 9) + 2) div 5 + d - 1;
          doe = yoe * 365 + yoe div 4 - yoe div 100 + doy
      in era * 146097 + doe - 719468)"

definition civilFromDays :: "int \<Rightarrow> int \<times> int \<times> int" where
  "civilFromDays z =
     (let z' = z + 719468;
          era = z' div 146097;
          doe = z' - era * 146097;
          yoe = (doe - doe div 1460 + doe div 36524 - doe div 146096) div 365;
          doy = doe - (365 * yoe + yoe div 4 - yoe div 100);
          mp = (5 * doy + 2) div 153;
          d = doy - (153 * mp + 2) div 5 + 1;
          m = (if mp < 10 then mp + 3 else mp - 9);
          y = yoe + era * 400
      in (if m \<le> 2 then y + 1 else y, m, d))"

definition timeClip :: "int \<Rightarrow> jsdate" where
  "timeClip t = (if \<bar>t\<bar> \<le> 8640000000000000 then DateTV t else InvalidDate)"

definition utcDateFromParts :: "int \<Rightarrow> int \<Rightarrow> int \<Rightarrow> jsdate" where
  "utcDateFromParts y m d =
     (let yr = (if 0 \<le> y \<and> y \<le> 99 then 1900 + y else y)
      in timeClip ((daysFromCivil (yr + m div 12) (m mod 12 + 1) 1 + d - 1) * 86400000))"

definition isoDateFromString :: "string \<Rightarrow> jsdate" where
  "isoDateFromString s =
     (case splitOn (\<lambda>c. c = CHR ''-'') s of
        [y, m, d] \<Rightarrow>
          if length y = 4 \<and> length m = 2 \<and> length d = 2 \<and> list_all isDigit (y @ m @ d)
             \<and> 1 \<le> digitsValue 10 m \<and> digitsValue 10 m \<le> 12
             \<and> 1 \<le> digitsValue 10 d \<and> digitsValue 10 d \<le> 31
          then timeClip (daysFromCivil (int (digitsValue 10 y)) (int (digitsValue 10 m))
                           (int (digitsValue 10 d)) * 86400000)
          else InvalidDate
      | _ \<Rightarrow> InvalidDate)"

definition showInt :: "int \<Rightarrow> string" where
  "showInt i = (if i < 0 then ''-'' @ showNat (nat (- i)) else showNat (nat i))"

definition usDateString :: "jsdate \<Rightarrow> string" where
  "usDateString dt =
     (case dt of
        InvalidDate \<Rightarrow> ''Invalid Date''
      | DateTV t \<Rightarrow>
          (case civilFromDays (t div 86400000) of
             (y, m, d) \<Rightarrow> showInt m @ ''/'' @ showInt d @ ''/'' @ showInt y))"

definition utcHost :: host where
  "utcHost =
     \<lparr> currentTime = 1700000000000,
       dateFromString = isoDateFromString,
       dateFromParts = utcDateFromParts,
       toLocaleDateString = usDateString,
       randomId = (\<lambda>k. ''id'' @ showNat k),
       papaParse = (\<lambda>content. []) \<rparr>"

section \<open>Field parsers (parser.ts, lines 61 to 77)\<close>

definition parseDate :: "host \<Rightarrow> string \<Rightarrow> jsdate" where
  "parseDate h dateStr =
     (let parts = splitOn (\<lambda>c. c = CHR ''/'') dateStr in
      case parts of
        [p0, p1, p2] \<Rightarrow>
          newDate3 h (parseInt p2) (num_sub (parseInt p0) (Fin 1)) (parseInt p1)
      | _ \<Rightarrow>
          (let parsed = dateFromString h dateStr in
           if isNaN (getTime parsed) then DateTV (currentTime h) else parsed))"

text \<open>\<^verbatim>\<open>amountStr.replace(/[$,\s]/g, '')\<close>, then \<^verbatim>\<open>parseFloat\<close>.\<close>

definition cleanAmount :: "string \<Rightarrow> string" where
  "cleanAmount amountStr =
     filter (\<lambda>c. \<not> (c = CHR ''$'' \<or> c = CHR '','' \<or> isWhite c)) amountStr"

definition parseAmount :: "string \<Rightarrow> number" where
  "parseAmount amountStr =
     (let cleaned = cleanAmount amountStr;
          amount = parseFloat cleaned
      in if isNaN amount then Fin 0 else amount)"

section \<open>Records and the record builder (types/index.ts; parser.ts, lines 79 to 121)\<close>

text \<open>
  The type \<^verbatim>\<open>Transaction\<close>. The field \<^verbatim>\<open>id\<close> is called \<open>txId\<close> here; an
  optional field that is \<^verbatim>\<open>undefined\<close> is \<open>None\<close>.
\<close>

record transaction =
  txId :: string
  date :: jsdate
  description :: string
  amount :: number
  category :: string
  city :: "string option"
  state :: "string option"
  fileId :: string

text \<open>A cell that is \<^verbatim>\<open>undefined\<close> or the empty string is falsy.\<close>

definition falsy :: "string option \<Rightarrow> bool" where
  "falsy v = (v = None \<or> v = Some [])"

definition orDefault :: "string option \<Rightarrow> string \<Rightarrow> string" where
  "orDefault v d = (case v of None \<Rightarrow> d | Some s \<Rightarrow> if s = [] then d else s)"

definition isNewline :: "char \<Rightarrow> bool" where
  "isNewline c = (c = CHR 0x0A)"

text \<open>
  One turn of the loop over the parsed rows: \<open>None\<close> when the row is skipped
  (\<^verbatim>\<open>continue\<close>), else the record pushed; \<open>k\<close> counts the identifiers drawn so far.
  The three required cells are read with \<open>the\<close> only behind the test that none of
  them is falsy.
\<close>

definition buildRow :: "host \<Rightarrow> string \<Rightarrow> nat \<Rightarrow> row \<Rightarrow> transaction option" where
  "buildRow h fid k r =
     (let dateCell = r ''Date'';
          descriptionCell = r ''Description'';
          amountStr = r ''Amount'';
          categoryCell = orDefault (r ''Category'') ''Other''
      in if falsy dateCell \<or> falsy descriptionCell \<or> falsy amountStr then None
         else
           let amt = parseAmount (the amountStr) in
           if num_le amt (Fin 0) then None
           else
             let cityState = orDefault (r ''City/State'') [];
                 parts = map trim (splitOn isNewline cityState)
             in Some \<lparr> txId = randomId h k,
                       date = parseDate h (the dateCell),
                       description = trim (the descriptionCell),
                       amount = amt,
                       category = simplifyCategory categoryCell,
                       city = elemAt parts 0,
                       state = elemAt parts 1,
                       fileId = fid \<rparr>)"

fun buildRows :: "host \<Rightarrow> string \<Rightarrow> nat \<Rightarrow> row list \<Rightarrow> transaction list" where
  "buildRows h fid k [] = []"
| "buildRows h fid k (r # rs) =
     (case buildRow h fid k r of
        None \<Rightarrow> buildRows h fid k rs
      | Some t \<Rightarrow> t # buildRows h fid (Suc k) rs)"

text \<open>
  \<^verbatim>\<open>xs.sort(cmp)\<close>: the sort is stable; \<open>x\<close> goes behind \<open>y\<close> when
  \<open>cmp x y\<close> is positive, and a comparison that is \<open>NaN\<close> counts as zero. It is
  written as an insertion sort from the right. (Where the comparisons are not
  consistent with an order, as with \<open>NaN\<close>, the language leaves the order of the
  result to the engine; the result is a permutation of the input in any case, and this
  is one.)
\<close>

fun insertBy :: "('a \<Rightarrow> 'a \<Rightarrow> number) \<Rightarrow> 'a \<Rightarrow> 'a list \<Rightarrow> 'a list" where
  "insertBy cmp x [] = [x]"
| "insertBy cmp x (y # ys) =
     (if num_lt (Fin 0) (cmp x y) then y # insertBy cmp x ys else x # y # ys)"

definition sortBy :: "('a \<Rightarrow> 'a \<Rightarrow> number) \<Rightarrow> 'a list \<Rightarrow> 'a list" where
  "sortBy cmp xs = foldr (insertBy cmp) xs []"

definition byDateDesc :: "transaction \<Rightarrow> transaction \<Rightarrow> number" where
  "byDateDesc a b = num_sub (getTime (date b)) (getTime (date a))"

definition parseCSV :: "host \<Rightarrow> string \<Rightarrow> string \<Rightarrow> transaction list" where
  "parseCSV h csvContent fid = sortBy byDateDesc (buildRows h fid 0 (papaParse h csvContent))"

section \<open>Aggregators (parser.ts, lines 135 to 187)\<close>

text \<open>
  A \<^verbatim>\<open>Map\<close> keeps its keys in the order of their first insertion: a list of
  pairs, where \<^verbatim>\<open>set\<close> replaces the value of a key in place or appends a new key.
\<close>

fun mapSet :: "('k \<times> 'v) list \<Rightarrow> 'k \<Rightarrow> 'v \<Rightarrow> ('k \<times> 'v) list" where
  "mapSet [] k v = [(k, v)]"
| "mapSet ((k', v') # m) k v = (if k' = k then (k, v) # m else (k', v') # mapSet m k v)"

definition mapGet :: "('k \<times> 'v) list \<Rightarrow> 'k \<Rightarrow> 'v option" where
  "mapGet m k = map_of m k"

text \<open>
  The body of both grouping loops, for the key \<open>key t\<close>: the entry of the key, or
  total 0 and count 0, with the amount added and the count raised by one.
\<close>

definition addTo :: "(transaction \<Rightarrow> string) \<Rightarrow> (string \<times> number \<times> nat) list \<Rightarrow> transaction
    \<Rightarrow> (string \<times> number \<times> nat) list" where
  "addTo key m t =
     (let existing = (case mapGet m (key t) of Some e \<Rightarrow> e | None \<Rightarrow> (Fin 0, 0))
      in mapSet m (key t) (num_add (fst existing) (amount t), snd existing + 1))"

definition groupTotals :: "(transaction \<Rightarrow> string) \<Rightarrow> transaction list \<Rightarrow> (string \<times> number \<times> nat) list" where
  "groupTotals key ts = foldl (addTo key) [] ts"

text \<open>The type \<^verbatim>\<open>CategoryTotal\<close>, its fields prefixed with \<open>ct_\<close>.\<close>

record categoryTotal =
  ct_category :: string
  ct_total :: number
  ct_count :: nat
  ct_color :: string

definition byCtTotalDesc :: "categoryTotal \<Rightarrow> categoryTotal \<Rightarrow> number" where
  "byCtTotalDesc a b = num_sub (ct_total b) (ct_total a)"

definition getCategoryTotals :: "transaction list \<Rightarrow> categoryTotal list" where
  "getCategoryTotals ts =
     sortBy byCtTotalDesc
       (map (\<lambda>(c, d). \<lparr> ct_category = c, ct_total = fst d, ct_count = snd d,
                         ct_color = getCategoryColor c \<rparr>)
            (groupTotals category ts))"

text \<open>
  The merchant name of a description:
  \<^verbatim>\<open>description.split(/\d/)[0].trim()\<close>.
\<close>

definition merchantName :: "string \<Rightarrow> string" where
  "merchantName d = (case splitOn isDigit d of p # ps \<Rightarrow> trim p | [] \<Rightarrow> [])"

definition merchantOf :: "transaction \<Rightarrow> string" where
  "merchantOf t = merchantName (description t)"

text \<open>The entries of the top-merchant list, the fields prefixed with \<open>mt_\<close>.\<close>

record merchantTotal =
  mt_name :: string
  mt_total :: number
  mt_count :: nat

definition byMtTotalDesc :: "merchantTotal \<Rightarrow> merchantTotal \<Rightarrow> number" where
  "byMtTotalDesc a b = num_sub (mt_total b) (mt_total a)"

text \<open>
  \<^verbatim>\<open>xs.slice(0, end)\<close>: \<open>end\<close> is cut to a whole number towards zero
  (\<open>NaN\<close> counts as 0); a negative \<open>end\<close> counts from the end of the array.
\<close>

definition truncate :: "rat \<Rightarrow> int" where
  "truncate r = (if r < 0 then \<lceil>r\<rceil> else \<lfloor>r\<rfloor>)"

definition slice0 :: "'a list \<Rightarrow> number \<Rightarrow> 'a list" where
  "slice0 xs end =
     (case end of
        NaN \<Rightarrow> []
      | PInf \<Rightarrow> xs
      | NInf \<Rightarrow> []
      | Fin r \<Rightarrow>
          if truncate r < 0 then take (nat (int (length xs) + truncate r)) xs
          else take (nat (truncate r)) xs)"

text \<open>The limit is optional and defaults to 10.\<close>

definition getTopMerchants :: "transaction list \<Rightarrow> number option \<Rightarrow> merchantTotal list" where
  "getTopMerchants ts limit =
     slice0
       (sortBy byMtTotalDesc
          (map (\<lambda>(n, d). \<lparr> mt_name = n, mt_total = fst d, mt_count = snd d \<rparr>)
               (groupTotals merchantOf ts)))
       (case limit of None \<Rightarrow> Fin 10 | Some l \<Rightarrow> l)"

section \<open>The CSV export (storage.ts, lines 52 to 64)\<close>

text \<open>\<^verbatim>\<open>description.replace(/"/g, '""')\<close>: every double quote is written twice.\<close>

fun doubleQuotes :: "string \<Rightarrow> string" where
  "doubleQuotes [] = []"
| "doubleQuotes (c # cs) =
     (if c = CHR 0x22 then CHR 0x22 # CHR 0x22 # doubleQuotes cs else c # doubleQuotes cs)"

definition csvHeaders :: "string list" where
  "csvHeaders = [''Date'', ''Description'', ''Amount'', ''Category'', ''City'', ''State'']"

definition csvRow :: "host \<Rightarrow> transaction \<Rightarrow> string list" where
  "csvRow h t =
     [toLocaleDateString h (date t),
      [CHR 0x22] @ doubleQuotes (description t) @ [CHR 0x22],
      toFixed2 (amount t),
      category t,
      orDefault (city t) [],
      orDefault (state t) []]"

definition exportToCSV :: "host \<Rightarrow> transaction list \<Rightarrow> string" where
  "exportToCSV h ts =
     joinStr [CHR 0x0A] (joinStr '','' csvHeaders # map (\<lambda>r. joinStr '','' r) (map (csvRow h) ts))"

text \<open>
  Reading a quoted field back, as a CSV reader does: the text between the outer
  quotes, with every pair of quotes standing for one; a single quote inside is an
  error.
\<close>

fun undoubleQuotes :: "string \<Rightarrow> string option" where
  "undoubleQuotes [] = Some []"
| "undoubleQuotes [c] = (if c = CHR 0x22 then None else Some [c])"
| "undoubleQuotes (c # c' # cs) =
     (if c = CHR 0x22
      then (if c' = CHR 0x22 then map_option (\<lambda>r. CHR 0x22 # r) (undoubleQuotes cs) else None)
      else map_option (\<lambda>r. c # r) (undoubleQuotes (c' # cs)))"

definition unquoteField :: "string \<Rightarrow> string option" where
  "unquoteField f =
     (if 2 \<le> length f \<and> hd f = CHR 0x22 \<and> last f = CHR 0x22
      then undoubleQuotes (butlast (tl f)) else None)"

section \<open>Auxiliary notions for the proofs\<close>

text \<open>The entry of a key in a map under construction, or the entry a new key starts from.\<close>

definition entryOr :: "(string \<times> number \<times> nat) list \<Rightarrow> string \<Rightarrow> number \<times> nat" where
  "entryOr m k = (case map_of m k of Some e \<Rightarrow> e | None \<Rightarrow> (Fin 0, 0))"

text \<open>The values of the binary64 grid: whole multiples of \<open>2^-1074\<close>.\<close>

definition onGrid :: "rat \<Rightarrow> bool" where
  "onGrid r = (\<exists>n::int. r = of_int n * pow2 (- 1074))"

text \<open>The magnitude that \<open>round64\<close> computes for a value other than 0.\<close>

definition magnitude64 :: "rat \<Rightarrow> rat" where
  "magnitude64 a =
     (let e = max (ilog2 a - 52) (- 1074)
      in of_int (roundHalfEven (a / pow2 e)) * pow2 e)"

text \<open>
  What a running total of positive amounts can be: plus infinity, or a finite value of
  the grid that is not negative.
\<close>

definition goodTotal :: "number \<Rightarrow> bool" where
  "goodTotal v = (case v of PInf \<Rightarrow> True | Fin r \<Rightarrow> 0 \<le> r \<and> onGrid r | _ \<Rightarrow> False)"

text \<open>The entries of the two rankings before they are sorted.\<close>

definition categoryEntries :: "transaction list \<Rightarrow> categoryTotal list" where
  "categoryEntries ts =
     map (\<lambda>(c, d). \<lparr> ct_category = c, ct_total = fst d, ct_count = snd d,
                       ct_color = getCategoryColor c \<rparr>)
         (groupTotals category ts)"

definition merchantEntries :: "transaction list \<Rightarrow> merchantTotal list" where
  "merchantEntries ts =
     map (\<lambda>(n, d). \<lparr> mt_name = n, mt_total = fst d, mt_count = snd d \<rparr>)
         (groupTotals merchantOf ts)"

text \<open>A record for the examples, from its description, amount and category.\<close>

definition sampleTx :: "string \<Rightarrow> number \<Rightarrow> string \<Rightarrow> transaction" where
  "sampleTx d a c =
     \<lparr> txId = ''id'', date = DateTV 0, description = d, amount = a, category = c,
       city = None, state = None, fileId = ''file'' \<rparr>"

text \<open>
  A host for the examples whose tabular parser returns the given rows, and four rows: a
  purchase without the column City/State, a payment, a row whose amount is not a number,
  and a purchase with city and state.
\<close>

definition hostWithRows :: "row list \<Rightarrow> host" where
  "hostWithRows rs = utcHost\<lparr>papaParse := \<lambda>content. rs\<rparr>"

definition starbucksRow :: row where
  "starbucksRow = map_of [(''Date'', ''03/15/2024''), (''Description'', ''STARBUCKS #1234''),
     (''Amount'', ''$12.50''), (''Category'', ''Restaurants'')]"

definition paymentRow :: row where
  "paymentRow = map_of [(''Date'', ''03/16/2024''), (''Description'', ''PAYMENT''),
     (''Amount'', ''-45.00'')]"

definition unparsableRow :: row where
  "unparsableRow = map_of [(''Date'', ''03/17/2024''), (''Description'', ''COFFEE''),
     (''Amount'', ''abc'')]"

definition austinRow :: row where
  "austinRow = map_of [(''Date'', ''03/15/2024''), (''Description'', ''TACO TRUCK''),
     (''Amount'', ''$12.50''), (''City/State'', '' Austin '' @ [CHR 0x0A] @ '' TX'')]"

section \<open>Lemmas\<close>

subsection \<open>Substrings\<close>

lemma startsWith_iff: "startsWith s k \<longleftrightarrow> (\<exists>b. s = k @ b)"
  by (induction s k rule: startsWith.induct) auto

lemma includesStr_iff: "includesStr s k \<longleftrightarrow> (\<exists>a b. s = a @ k @ b)"
proof (induction s)
  case Nil
  then show ?case by simp
next
  case (Cons c cs)
  show ?case
  proof
    assume "includesStr (c # cs) k"
    then consider "startsWith (c # cs) k" | "includesStr cs k" by auto
    then show "\<exists>a b. c # cs = a @ k @ b"
    proof cases
      case 1
      then obtain b where "c # cs = k @ b" by (auto simp: startsWith_iff)
      then have "c # cs = [] @ k @ b" by simp
      then show ?thesis by blast
    next
      case 2
      then obtain a b where "cs = a @ k @ b" using Cons.IH by blast
      then have "c # cs = (c # a) @ k @ b" by simp
      then show ?thesis by blast
    qed
  next
    assume "\<exists>a b. c # cs = a @ k @ b"
    then obtain a b where ab: "c # cs = a @ k @ b" by blast
    show "includesStr (c # cs) k"
    proof (cases a)
      case Nil
      with ab have "startsWith (c # cs) k" by (auto simp: startsWith_iff)
      then show ?thesis by simp
    next
      case (Cons x a')
      with ab have "cs = a' @ k @ b" by simp
      then have "includesStr cs k" using Cons.IH by blast
      then show ?thesis by simp
    qed
  qed
qed

lemma toLowerCase_append: "toLowerCase (a @ b) = toLowerCase a @ toLowerCase b"
  by (simp add: toLowerCase_def)

lemma includes_lower: "s = a @ u @ b \<Longrightarrow> toLowerCase u = k \<Longrightarrow> includesStr (toLowerCase s) k"
  unfolding includesStr_iff by (auto simp: toLowerCase_append)

lemma simplifyCategory_restaurant:
  assumes "includesStr (toLowerCase s) ''restaurant'' \<or> includesStr (toLowerCase s) ''food''
     \<or> includesStr (toLowerCase s) ''fast food''"
  shows "simplifyCategory s = ''Restaurant''"
  unfolding simplifyCategory_def Let_def
  by (rule if_P) (use assms in blast)

subsection \<open>Maps as lists of pairs\<close>

lemma map_of_mapSet: "map_of (mapSet m k v) = (map_of m)(k \<mapsto> v)"
  by (induction m k v rule: mapSet.induct) (auto simp: fun_eq_iff)

lemma keys_mapSet:
  "map fst (mapSet m k v) = (if k \<in> fst ` set m then map fst m else map fst m @ [k])"
  by (induction m k v rule: mapSet.induct) (auto simp: image_iff)

lemma distinct_mapSet: "distinct (map fst m) \<Longrightarrow> distinct (map fst (mapSet m k v))"
  by (simp add: keys_mapSet)

lemma set_keys_mapSet: "fst ` set (mapSet m k v) = insert k (fst ` set m)"
proof -
  have "set (map fst (mapSet m k v)) = insert k (set (map fst m))"
    by (simp only: keys_mapSet) (auto simp: image_iff)
  then show ?thesis by (simp only: set_map)
qed

lemma entryOr_addTo:
  "entryOr (addTo key m t) k =
     (if key t = k then (num_add (fst (entryOr m k)) (amount t), Suc (snd (entryOr m k)))
      else entryOr m k)"
  by (simp add: entryOr_def addTo_def mapGet_def map_of_mapSet Let_def)

lemma keys_addTo: "fst ` set (addTo key m t) = insert (key t) (fst ` set m)"
  by (simp add: addTo_def Let_def set_keys_mapSet)

lemma distinct_addTo: "distinct (map fst m) \<Longrightarrow> distinct (map fst (addTo key m t))"
  by (simp add: addTo_def Let_def distinct_mapSet)

lemma keys_foldl_addTo: "fst ` set (foldl (addTo key) m ts) = fst ` set m \<union> key ` set ts"
  by (induction ts arbitrary: m) (auto simp: keys_addTo)

lemma distinct_foldl_addTo:
  "distinct (map fst m) \<Longrightarrow> distinct (map fst (foldl (addTo key) m ts))"
  by (induction ts arbitrary: m) (auto simp: distinct_addTo)

lemma entryOr_foldl_addTo:
  "entryOr (foldl (addTo key) m ts) k =
     (foldl num_add (fst (entryOr m k)) (map amount (filter (\<lambda>t. key t = k) ts)),
      snd (entryOr m k) + length (filter (\<lambda>t. key t = k) ts))"
  by (induction ts arbitrary: m) (auto simp: entryOr_addTo)

lemma keys_groupTotals: "fst ` set (groupTotals key ts) = key ` set ts"
  by (simp add: groupTotals_def keys_foldl_addTo)

lemma distinct_groupTotals: "distinct (map fst (groupTotals key ts))"
  by (simp add: groupTotals_def distinct_foldl_addTo)

lemma length_groupTotals: "length (groupTotals key ts) = card (key ` set ts)"
proof -
  have "card (key ` set ts) = card (set (map fst (groupTotals key ts)))"
    by (simp add: keys_groupTotals)
  also have "\<dots> = length (map fst (groupTotals key ts))"
    by (rule distinct_card) (rule distinct_groupTotals)
  finally show ?thesis by simp
qed

lemma entry_groupTotals:
  assumes "(k, tot, cnt) \<in> set (groupTotals key ts)"
  shows "tot = foldl num_add (Fin 0) (map amount (filter (\<lambda>t. key t = k) ts))
       \<and> cnt = length (filter (\<lambda>t. key t = k) ts)"
proof -
  have "map_of (groupTotals key ts) k = Some (tot, cnt)"
    using assms distinct_groupTotals by simp
  then have "entryOr (groupTotals key ts) k = (tot, cnt)"
    by (simp add: entryOr_def)
  moreover have "entryOr (groupTotals key ts) k =
      (foldl num_add (Fin 0) (map amount (filter (\<lambda>t. key t = k) ts)),
       length (filter (\<lambda>t. key t = k) ts))"
    unfolding groupTotals_def entryOr_foldl_addTo by (simp add: entryOr_def)
  ultimately show ?thesis by simp
qed

subsection \<open>Sorting\<close>

lemma set_insertBy: "set (insertBy cmp x ys) = insert x (set ys)"
  by (induction ys) auto

lemma length_insertBy: "length (insertBy cmp x ys) = Suc (length ys)"
  by (induction ys) auto

lemma set_sortBy: "set (sortBy cmp xs) = set xs"
  unfolding sortBy_def by (induction xs) (auto simp: set_insertBy)

lemma length_sortBy: "length (sortBy cmp xs) = length xs"
  unfolding sortBy_def by (induction xs) (auto simp: length_insertBy)

lemma distinct_map_insertBy:
  "distinct (map f (insertBy cmp x ys)) \<longleftrightarrow> f x \<notin> f ` set ys \<and> distinct (map f ys)"
  by (induction ys) (auto simp: set_insertBy)

lemma distinct_map_sortBy: "distinct (map f (sortBy cmp xs)) \<longleftrightarrow> distinct (map f xs)"
  unfolding sortBy_def
proof (induction xs)
  case Nil
  then show ?case by simp
next
  case (Cons x xs)
  have "set (foldr (insertBy cmp) xs []) = set xs"
    using set_sortBy[of cmp xs] by (simp add: sortBy_def)
  with Cons show ?case by (simp add: distinct_map_insertBy)
qed

lemma sorted_insertBy:
  assumes tr: "\<And>x y z. P x \<Longrightarrow> P y \<Longrightarrow> P z \<Longrightarrow> R x y \<Longrightarrow> R y z \<Longrightarrow> R x z"
    and le: "\<And>x y. P x \<Longrightarrow> P y \<Longrightarrow> \<not> num_lt (Fin 0) (cmp x y) \<Longrightarrow> R x y"
    and gt: "\<And>x y. P x \<Longrightarrow> P y \<Longrightarrow> num_lt (Fin 0) (cmp x y) \<Longrightarrow> R y x"
    and "P x" and "\<forall>y\<in>set ys. P y" and "sorted_wrt R ys"
  shows "sorted_wrt R (insertBy cmp x ys)"
  using assms(4-)
proof (induction ys)
  case Nil
  then show ?case by simp
next
  case (Cons y ys)
  show ?case
  proof (cases "num_lt (Fin 0) (cmp x y)")
    case True
    then have "R y x" using gt Cons.prems by simp
    moreover have "sorted_wrt R (insertBy cmp x ys)" using Cons by simp
    ultimately show ?thesis using True Cons.prems by (auto simp: set_insertBy)
  next
    case False
    then have xy: "R x y" using le Cons.prems by simp
    have "R x z" if "z \<in> set ys" for z
      using tr[of x y z] xy that Cons.prems by auto
    then show ?thesis using False xy Cons.prems by auto
  qed
qed

lemma sorted_sortBy:
  assumes tr: "\<And>x y z. P x \<Longrightarrow> P y \<Longrightarrow> P z \<Longrightarrow> R x y \<Longrightarrow> R y z \<Longrightarrow> R x z"
    and le: "\<And>x y. P x \<Longrightarrow> P y \<Longrightarrow> \<not> num_lt (Fin 0) (cmp x y) \<Longrightarrow> R x y"
    and gt: "\<And>x y. P x \<Longrightarrow> P y \<Longrightarrow> num_lt (Fin 0) (cmp x y) \<Longrightarrow> R y x"
    and "\<forall>x\<in>set xs. P x"
  shows "sorted_wrt R (sortBy cmp xs)"
  using assms(4)
proof (induction xs)
  case Nil
  then show ?case by (simp add: sortBy_def)
next
  case (Cons x xs)
  have "sorted_wrt R (insertBy cmp x (sortBy cmp xs))"
    by (rule sorted_insertBy[where P = P, OF tr le gt]) (use Cons in \<open>auto simp: set_sortBy\<close>)
  then show ?case by (simp add: sortBy_def)
qed

subsection \<open>Slicing\<close>

lemma slice0_all:
  assumes "num_le (Fin (of_nat (length xs))) end"
  shows "slice0 xs end = xs"
proof (cases "end")
  case (Fin r)
  with assms have le: "of_nat (length xs) \<le> r"
    by (auto simp: num_le_def)
  then have "0 \<le> r" using of_nat_0_le_iff[of "length xs", where ?'a = rat] by linarith
  have "of_int (int (length xs)) \<le> r" using le by simp
  then have "int (length xs) \<le> \<lfloor>r\<rfloor>" by (simp only: le_floor_iff)
  then have "length xs \<le> nat \<lfloor>r\<rfloor>" by linarith
  then show ?thesis using Fin \<open>0 \<le> r\<close> by (simp add: slice0_def truncate_def)
qed (use assms in \<open>auto simp: slice0_def num_le_def\<close>)

lemma slice0_empty:
  assumes "num_lt (Fin (- 1)) end" and "num_le end (Fin 0)"
  shows "slice0 xs end = []"
proof (cases "end")
  case (Fin r)
  with assms have r: "- 1 < r" "r \<le> 0" by (auto simp: num_le_def)
  have "truncate r = 0"
  proof (cases "r < 0")
    case True
    have "\<lceil>r\<rceil> = 0" using r by (simp add: ceiling_eq_iff)
    then show ?thesis using True by (simp add: truncate_def)
  next
    case False
    then have "r = 0" using r by simp
    then show ?thesis by (simp add: truncate_def)
  qed
  then show ?thesis using Fin by (simp add: slice0_def)
qed (use assms in \<open>auto simp: slice0_def num_le_def\<close>)

lemma slice0_negative:
  assumes "r \<le> - 1"
  shows "slice0 xs (Fin r) = take (length xs - nat \<lfloor>- r\<rfloor>) xs"
proof -
  have neg: "r < 0" using assms by linarith
  have c: "\<lceil>r\<rceil> = - \<lfloor>- r\<rfloor>" by (simp add: ceiling_def)
  have "1 \<le> - r" using assms by linarith
  then have "1 \<le> \<lfloor>- r\<rfloor>" by (simp add: le_floor_iff)
  then have t: "truncate r < 0" using neg c by (simp add: truncate_def)
  have "nat (int (length xs) + truncate r) = length xs - nat \<lfloor>- r\<rfloor>"
    using neg c \<open>1 \<le> \<lfloor>- r\<rfloor>\<close> by (simp add: truncate_def) linarith
  then show ?thesis using t by (simp add: slice0_def)
qed

lemma slice0_NInf: "slice0 xs NInf = []"
  by (simp add: slice0_def)

subsection \<open>Rounding\<close>

lemma pow2_powi: "pow2 e = 2 powi e"
  by (simp add: pow2_def power_int_def power_one_over inverse_eq_divide)

lemma pow2_pos: "0 < pow2 e"
  by (simp add: pow2_powi)

lemma pow2_add: "pow2 (a + b) = pow2 a * pow2 b"
  by (simp add: pow2_powi power_int_add)

lemma pow2_mono: "a \<le> b \<Longrightarrow> pow2 a \<le> pow2 b"
  by (simp add: pow2_powi power_int_increasing)

lemma pow2_nat: "pow2 (int n) = 2 ^ n"
  by (simp add: pow2_def)

lemma ilog2_le:
  assumes "0 < a"
  shows "pow2 (ilog2 a) \<le> a"
proof (cases "1 \<le> a")
  case True
  define n where "n = nat \<lfloor>a\<rfloor>"
  have "1 \<le> \<lfloor>a\<rfloor>" using True by (simp add: le_floor_iff)
  then have n: "0 < n" by (simp add: n_def)
  have "2 ^ (floorlog 2 n - 1) \<le> n" using floorlog_bounds[of n 2] n by simp
  moreover have "0 < floorlog 2 n" using n floorlog_eq_zero_iff[of 2 n] by simp
  ultimately have "pow2 (int (floorlog 2 n) - 1) \<le> of_nat n"
    by (metis (no_types, lifting) pow2_nat of_nat_1 of_nat_diff of_nat_le_iff of_nat_numeral
        of_nat_power Suc_leI One_nat_def)
  moreover have "(of_nat n :: rat) = of_int \<lfloor>a\<rfloor>" using \<open>1 \<le> \<lfloor>a\<rfloor>\<close> by (simp add: n_def)
  moreover have "of_int \<lfloor>a\<rfloor> \<le> a" by simp
  ultimately have "pow2 (int (floorlog 2 n) - 1) \<le> a" by linarith
  then show ?thesis using True by (simp add: ilog2_def n_def)
next
  case False
  define n where "n = nat (\<lceil>1 / a\<rceil> - 1)"
  have "1 < 1 / a" using False assms by (simp add: field_simps)
  then have "1 < \<lceil>1 / a\<rceil>" by (simp add: less_ceiling_iff)
  then have n: "0 < n" by (simp add: n_def)
  have "n < 2 ^ floorlog 2 n" using floorlog_bounds[of n 2] n by simp
  then have "int n < 2 ^ floorlog 2 n" by (metis of_nat_less_iff of_nat_numeral of_nat_power)
  moreover have "0 \<le> \<lceil>1 / a\<rceil> - 1" using \<open>1 < \<lceil>1 / a\<rceil>\<close> by linarith
  then have "int n = \<lceil>1 / a\<rceil> - 1" unfolding n_def by (rule nat_0_le)
  ultimately have "\<lceil>1 / a\<rceil> \<le> 2 ^ floorlog 2 n" by linarith
  then have "1 / a \<le> of_int (2 ^ floorlog 2 n)" by (simp only: ceiling_le_iff)
  then have "1 / a \<le> 2 ^ floorlog 2 n" by simp
  then have "1 / 2 ^ floorlog 2 n \<le> a" using assms
    by (simp add: field_simps)
  moreover have "pow2 (- int (floorlog 2 n)) = 1 / 2 ^ floorlog 2 n"
    by (simp add: pow2_def)
  ultimately show ?thesis using False by (simp add: ilog2_def n_def)
qed

lemma roundHalfEven_nonneg: "0 \<le> q \<Longrightarrow> 0 \<le> roundHalfEven q"
  by (auto simp: roundHalfEven_def Let_def)

lemma roundHalfEven_ge1:
  assumes "1 \<le> q" shows "1 \<le> roundHalfEven q"
proof -
  have "1 \<le> \<lfloor>q\<rfloor>" using assms by (simp add: le_floor_iff)
  then show ?thesis by (auto simp: roundHalfEven_def Let_def)
qed

lemma onGrid_0: "onGrid 0"
  unfolding onGrid_def by (rule exI[of _ 0]) simp

lemma onGrid_minus: "onGrid r \<Longrightarrow> onGrid (- r)"
  unfolding onGrid_def by (metis mult_minus_left of_int_minus)

lemma onGrid_add: "onGrid r \<Longrightarrow> onGrid s \<Longrightarrow> onGrid (r + s)"
  unfolding onGrid_def by (metis distrib_right of_int_add)

lemma onGrid_scaled:
  assumes "- 1074 \<le> e" shows "onGrid (of_int m * pow2 e)"
proof -
  have "pow2 e = pow2 (e + 1074) * pow2 (- 1074)"
    using pow2_add[of "e + 1074" "- 1074"] by simp
  also have "pow2 (e + 1074) = of_int (2 ^ nat (e + 1074))"
    using assms by (simp add: pow2_def)
  finally have "of_int m * pow2 e = of_int (m * 2 ^ nat (e + 1074)) * pow2 (- 1074)"
    by simp
  then show ?thesis unfolding onGrid_def by blast
qed

lemma onGrid_pos_ge:
  assumes "onGrid r" and "0 < r" shows "pow2 (- 1074) \<le> r"
proof -
  obtain n :: int where n: "r = of_int n * pow2 (- 1074)" using assms(1) onGrid_def by blast
  have "0 < (of_int n :: rat)" using assms(2) pow2_pos[of "- 1074"] n
    by (simp add: zero_less_mult_iff)
  then have "1 \<le> n" by simp
  then have "(1::rat) \<le> of_int n" by (metis of_int_1 of_int_le_iff)
  then have "1 * pow2 (- 1074) \<le> of_int n * pow2 (- 1074)"
    using pow2_pos[of "- 1074"] by (intro mult_right_mono) auto
  then show ?thesis using n by simp
qed

lemma round64_unfold:
  "x \<noteq> 0 \<Longrightarrow> round64 x =
     (if pow2 1024 \<le> magnitude64 \<bar>x\<bar> then (if 0 < x then PInf else NInf)
      else Fin (if 0 < x then magnitude64 \<bar>x\<bar> else - magnitude64 \<bar>x\<bar>))"
  by (simp add: round64_def magnitude64_def Let_def)

lemma magnitude64_nonneg: "0 < a \<Longrightarrow> 0 \<le> magnitude64 a"
  unfolding magnitude64_def Let_def
  by (intro mult_nonneg_nonneg) (auto intro!: roundHalfEven_nonneg simp: pow2_pos less_imp_le)

lemma magnitude64_onGrid: "onGrid (magnitude64 a)"
  unfolding magnitude64_def Let_def by (rule onGrid_scaled) simp

lemma magnitude64_pos:
  assumes "0 < a" and "onGrid a"
  shows "0 < magnitude64 a"
proof -
  define e where "e = max (ilog2 a - 52) (- 1074)"
  have "pow2 e \<le> a"
  proof (cases "ilog2 a - 52 \<le> - 1074")
    case True
    then have "e = - 1074" by (simp add: e_def)
    then show ?thesis using onGrid_pos_ge[OF assms(2,1)] by simp
  next
    case False
    then have "e = ilog2 a - 52" by (simp add: e_def)
    then have "pow2 e \<le> pow2 (ilog2 a)" by (simp add: pow2_mono)
    then show ?thesis using ilog2_le[OF assms(1)] by linarith
  qed
  then have "1 \<le> a / pow2 e" using pow2_pos[of e] by (simp add: field_simps)
  then have "1 \<le> roundHalfEven (a / pow2 e)" by (rule roundHalfEven_ge1)
  then have "0 < (of_int (roundHalfEven (a / pow2 e)) :: rat)" by simp
  then have "0 < of_int (roundHalfEven (a / pow2 e)) * pow2 e"
    using pow2_pos[of e] by (simp add: zero_less_mult_iff)
  then show ?thesis by (simp add: magnitude64_def e_def Let_def)
qed

lemma round64_0: "round64 0 = Fin 0"
  by (simp add: round64_def)

lemma round64_onGrid:
  assumes "round64 x = Fin r" shows "onGrid r"
proof (cases "x = 0")
  case True
  then show ?thesis using assms by (simp add: round64_0 onGrid_0)
next
  case False
  then have "r = magnitude64 \<bar>x\<bar> \<or> r = - magnitude64 \<bar>x\<bar>"
    using assms by (simp add: round64_unfold split: if_splits)
  then show ?thesis using magnitude64_onGrid onGrid_minus by blast
qed

lemma round64_nonneg:
  assumes "0 \<le> x"
  shows "round64 x = PInf \<or> (\<exists>r. round64 x = Fin r \<and> 0 \<le> r)"
proof (cases "x = 0")
  case True
  then show ?thesis by (simp add: round64_0)
next
  case False
  then have "0 < x" using assms by simp
  then have "0 \<le> magnitude64 \<bar>x\<bar>" by (intro magnitude64_nonneg) simp
  then show ?thesis using False \<open>0 < x\<close> by (simp add: round64_unfold)
qed

lemma round64_positive_iff:
  assumes "onGrid x"
  shows "num_lt (Fin 0) (round64 x) \<longleftrightarrow> 0 < x"
proof (cases "x = 0")
  case True
  then show ?thesis by (simp add: round64_0)
next
  case False
  show ?thesis
  proof (cases "0 < x")
    case True
    then have "0 < magnitude64 \<bar>x\<bar>" using assms by (intro magnitude64_pos) auto
    then show ?thesis using True False by (simp add: round64_unfold)
  next
    case neg: False
    then have "0 \<le> magnitude64 \<bar>x\<bar>" using False by (intro magnitude64_nonneg) auto
    then show ?thesis using neg False by (simp add: round64_unfold)
  qed
qed

subsection \<open>Totals of positive amounts\<close>

lemma goodTotal_0: "goodTotal (Fin 0)"
  by (simp add: goodTotal_def onGrid_0)

lemma goodTotal_round64: "0 \<le> x \<Longrightarrow> goodTotal (round64 x)"
  using round64_nonneg[of x] round64_onGrid[of x] by (auto simp: goodTotal_def)

lemma goodTotal_add:
  assumes "goodTotal x" and "num_lt (Fin 0) a"
  shows "goodTotal (num_add x a)"
proof (cases x)
  case PInf
  then show ?thesis using assms(2) by (cases a) (auto simp: goodTotal_def)
next
  case (Fin r)
  then have r: "0 \<le> r" using assms(1) by (simp add: goodTotal_def)
  show ?thesis
  proof (cases a)
    case (Fin q)
    then have "0 < q" using assms(2) by simp
    then have "goodTotal (round64 (r + q))" using r by (intro goodTotal_round64) simp
    then show ?thesis using Fin \<open>x = Fin r\<close> by simp
  qed (use assms(2) Fin in \<open>auto simp: goodTotal_def\<close>)
qed (use assms(1) in \<open>auto simp: goodTotal_def\<close>)

lemma goodTotal_foldl:
  "goodTotal x \<Longrightarrow> \<forall>a\<in>set as. num_lt (Fin 0) a \<Longrightarrow> goodTotal (foldl num_add x as)"
  by (induction as arbitrary: x) (auto simp: goodTotal_add)

lemma goodTotal_cmp:
  assumes "goodTotal x" and "goodTotal y"
  shows "num_lt (Fin 0) (num_sub y x) \<longleftrightarrow> num_lt x y"
proof (cases x)
  case fx: (Fin a)
  show ?thesis
  proof (cases y)
    case (Fin b)
    have "onGrid b" "onGrid (- a)" using assms fx Fin by (auto simp: goodTotal_def intro: onGrid_minus)
    then have "onGrid (b + - a)" by (rule onGrid_add)
    then have "num_lt (Fin 0) (round64 (b + - a)) \<longleftrightarrow> 0 < b + - a" by (rule round64_positive_iff)
    then show ?thesis using fx Fin by (simp add: num_sub_def)
  qed (use assms fx in \<open>auto simp: goodTotal_def num_sub_def\<close>)
next
  case PInf
  then show ?thesis using assms by (cases y) (auto simp: goodTotal_def num_sub_def)
qed (use assms in \<open>auto simp: goodTotal_def\<close>)

lemma goodTotal_linear: "goodTotal x \<Longrightarrow> goodTotal y \<Longrightarrow> \<not> num_lt x y \<Longrightarrow> num_le y x"
  by (cases x; cases y) (auto simp: goodTotal_def num_le_def)

lemma num_lt_imp_le: "num_lt x y \<Longrightarrow> num_le x y"
  by (cases x; cases y) (auto simp: num_le_def)

lemma num_le_trans: "num_le x y \<Longrightarrow> num_le y z \<Longrightarrow> num_le x z"
  by (cases x; cases y; cases z) (auto simp: num_le_def)

lemma sorted_by_total:
  assumes cmp: "\<And>a b. cmp a b = num_sub (tot b) (tot a)"
    and good: "\<forall>x\<in>set xs. goodTotal (tot x)"
  shows "sorted_wrt (\<lambda>a b. num_le (tot b) (tot a)) (sortBy cmp xs)"
proof (rule sorted_sortBy[where P = "\<lambda>x. goodTotal (tot x)"])
  show "num_le (tot z) (tot x)" if "num_le (tot y) (tot x)" "num_le (tot z) (tot y)" for x y z
    using that num_le_trans by blast
  show "num_le (tot y) (tot x)"
    if "goodTotal (tot x)" "goodTotal (tot y)" "\<not> num_lt (Fin 0) (cmp x y)" for x y
    using that by (simp add: cmp goodTotal_cmp goodTotal_linear)
  show "num_le (tot x) (tot y)"
    if "goodTotal (tot x)" "goodTotal (tot y)" "num_lt (Fin 0) (cmp x y)" for x y
    using that by (simp add: cmp goodTotal_cmp num_lt_imp_le)
  show "\<forall>x\<in>set xs. goodTotal (tot x)" by (rule good)
qed

lemma goodTotal_groupTotals:
  assumes "\<forall>t\<in>set ts. num_lt (Fin 0) (amount t)"
    and "(k, tot, cnt) \<in> set (groupTotals key ts)"
  shows "goodTotal tot"
proof -
  have "tot = foldl num_add (Fin 0) (map amount (filter (\<lambda>t. key t = k) ts))"
    using entry_groupTotals[OF assms(2)] by simp
  moreover have "\<forall>a\<in>set (map amount (filter (\<lambda>t. key t = k) ts)). num_lt (Fin 0) a"
    using assms(1) by auto
  ultimately show ?thesis using goodTotal_foldl[OF goodTotal_0] by simp
qed

subsection \<open>Counts\<close>

lemma counts_mapSet:
  "sum_list (map (snd \<circ> snd) (mapSet m k (tot, Suc (snd (entryOr m k)))))
     = Suc (sum_list (map (snd \<circ> snd) m))"
  by (induction m) (auto simp: entryOr_def)

lemma counts_addTo:
  "sum_list (map (snd \<circ> snd) (addTo key m t)) = Suc (sum_list (map (snd \<circ> snd) m))"
  using counts_mapSet[of m "key t"] by (simp add: addTo_def Let_def entryOr_def mapGet_def)

lemma counts_foldl_addTo:
  "sum_list (map (snd \<circ> snd) (foldl (addTo key) m ts))
     = sum_list (map (snd \<circ> snd) m) + length ts"
  by (induction ts arbitrary: m) (auto simp: counts_addTo)

lemma counts_groupTotals: "sum_list (map (snd \<circ> snd) (groupTotals key ts)) = length ts"
  by (simp add: groupTotals_def counts_foldl_addTo)

lemma sum_list_insertBy:
  "sum_list (map f (insertBy cmp x ys)) = (f x :: nat) + sum_list (map f ys)"
  by (induction ys) auto

lemma sum_list_sortBy: "sum_list (map f (sortBy cmp xs)) = (sum_list (map f xs) :: nat)"
  unfolding sortBy_def by (induction xs) (auto simp: sum_list_insertBy)

lemma getCategoryTotals_entries: "getCategoryTotals ts = sortBy byCtTotalDesc (categoryEntries ts)"
  by (simp add: getCategoryTotals_def categoryEntries_def)

lemma getTopMerchants_entries:
  "getTopMerchants ts (Some limit) = slice0 (sortBy byMtTotalDesc (merchantEntries ts)) limit"
  by (simp add: getTopMerchants_def merchantEntries_def)

lemma categoryEntries_keys: "map ct_category (categoryEntries ts) = map fst (groupTotals category ts)"
  by (simp add: categoryEntries_def case_prod_beta comp_def)

lemma categoryEntries_counts:
  "map ct_count (categoryEntries ts) = map (snd \<circ> snd) (groupTotals category ts)"
  by (simp add: categoryEntries_def case_prod_beta comp_def)

lemma categoryEntries_entry:
  assumes "e \<in> set (categoryEntries ts)"
  shows "(ct_category e, ct_total e, ct_count e) \<in> set (groupTotals category ts)"
  using assms by (auto simp: categoryEntries_def)

lemma merchantEntries_keys: "map mt_name (merchantEntries ts) = map fst (groupTotals merchantOf ts)"
  by (simp add: merchantEntries_def case_prod_beta comp_def)

lemma merchantEntries_entry:
  assumes "e \<in> set (merchantEntries ts)"
  shows "(mt_name e, mt_total e, mt_count e) \<in> set (groupTotals merchantOf ts)"
  using assms by (auto simp: merchantEntries_def)

lemma merchantEntries_names: "mt_name ` set (merchantEntries ts) = merchantOf ` set ts"
proof -
  have "set (map mt_name (merchantEntries ts)) = set (map fst (groupTotals merchantOf ts))"
    by (simp only: merchantEntries_keys)
  then show ?thesis using keys_groupTotals[of merchantOf ts] by (simp only: set_map)
qed

lemma length_merchantEntries: "length (merchantEntries ts) = card (merchantOf ` set ts)"
  by (simp add: merchantEntries_def length_groupTotals)

lemma merchantName_digit: "isDigit c \<Longrightarrow> merchantName (c # rest) = []"
  by (simp add: merchantName_def trim_def)

lemma pow2_neg_nat: "pow2 (- int m) = 1 / 2 ^ m"
  by (simp add: pow2_powi power_int_minus inverse_eq_divide)

lemma floorlog_upper: "0 < n \<Longrightarrow> int n < 2 ^ floorlog 2 n"
proof -
  assume "0 < n"
  then have "n < 2 ^ floorlog 2 n" using floorlog_bounds[of n 2] by simp
  then have "int n < int (2 ^ floorlog 2 n)" by (simp only: of_nat_less_iff)
  then show ?thesis by simp
qed

lemma floorlog_lower: "0 < n \<Longrightarrow> (2::int) ^ (floorlog 2 n - 1) \<le> int n"
proof -
  assume "0 < n"
  then have "2 ^ (floorlog 2 n - 1) \<le> n" using floorlog_bounds[of n 2] by simp
  then have "int (2 ^ (floorlog 2 n - 1)) \<le> int n" by (simp only: of_nat_le_iff)
  then show ?thesis by simp
qed

lemma ilog2_less:
  assumes "0 < a"
  shows "a < pow2 (ilog2 a + 1)"
proof (cases "1 \<le> a")
  case True
  define n where "n = nat \<lfloor>a\<rfloor>"
  have fl: "1 \<le> \<lfloor>a\<rfloor>" using True by (simp add: le_floor_iff)
  then have n: "0 < n" by (simp add: n_def)
  have "int n = \<lfloor>a\<rfloor>" unfolding n_def by (rule nat_0_le) (use fl in linarith)
  then have "\<lfloor>a\<rfloor> < 2 ^ floorlog 2 n" using floorlog_upper[OF n] by simp
  then have "a < of_int (2 ^ floorlog 2 n)" by (simp only: floor_less_iff)
  also have "of_int (2 ^ floorlog 2 n) = pow2 (int (floorlog 2 n))" by (simp add: pow2_nat)
  finally have "a < pow2 (int (floorlog 2 n))" .
  moreover have "ilog2 a + 1 = int (floorlog 2 n)" using True by (simp add: ilog2_def n_def)
  ultimately show ?thesis by simp
next
  case False
  define n where "n = nat (\<lceil>1 / a\<rceil> - 1)"
  define L where "L = floorlog 2 n"
  have inv: "0 < 1 / a" using assms by simp
  have "a < 1" using False by simp
  then have "1 < 1 / a" using assms by (simp add: less_divide_eq)
  then have c: "1 < \<lceil>1 / a\<rceil>" by (simp add: less_ceiling_iff)
  then have n: "0 < n" by (simp add: n_def)
  have Lpos: "0 < L" using n floorlog_eq_zero_iff[of 2 n] by (simp add: L_def)
  have "0 \<le> \<lceil>1 / a\<rceil> - 1" using c by linarith
  then have "int n = \<lceil>1 / a\<rceil> - 1" unfolding n_def by (rule nat_0_le)
  then have "(2::int) ^ (L - 1) < \<lceil>1 / a\<rceil>" using floorlog_lower[OF n] by (simp add: L_def)
  then have "of_int (2 ^ (L - 1)) < 1 / a" by (simp only: less_ceiling_iff)
  then have lt: "2 ^ (L - 1) < 1 / a" by simp
  have p: "(0::rat) < 2 ^ (L - 1)" by simp
  have "a * 2 ^ (L - 1) < 1"
  proof -
    have "a * 2 ^ (L - 1) < a * (1 / a)" using lt assms by (intro mult_strict_left_mono)
    then show ?thesis using assms by simp
  qed
  then have "a < 1 / 2 ^ (L - 1)" using p by (simp add: less_divide_eq)
  moreover have "ilog2 a + 1 = - int (L - 1)"
    using False Lpos by (simp add: ilog2_def n_def L_def)
  moreover have "pow2 (- int (L - 1)) = 1 / 2 ^ (L - 1)"
    by (rule pow2_neg_nat)
  ultimately show ?thesis by simp
qed

lemma ilog2_eqI:
  assumes "pow2 k \<le> a" and "a < pow2 (k + 1)"
  shows "ilog2 a = k"
proof -
  have a: "0 < a" using assms(1) pow2_pos[of k] by linarith
  have lo: "pow2 (ilog2 a) \<le> a" and hi: "a < pow2 (ilog2 a + 1)"
    using ilog2_le[OF a] ilog2_less[OF a] by simp_all
  have "\<not> k < ilog2 a"
  proof
    assume "k < ilog2 a"
    then have "pow2 (k + 1) \<le> pow2 (ilog2 a)" by (intro pow2_mono) simp
    then show False using assms(2) lo by linarith
  qed
  moreover have "\<not> ilog2 a < k"
  proof
    assume "ilog2 a < k"
    then have "pow2 (ilog2 a + 1) \<le> pow2 k" by (intro pow2_mono) simp
    then show False using assms(1) hi by linarith
  qed
  ultimately show ?thesis by simp
qed

text \<open>Rounding a given positive value, from the exponent \<open>k\<close> of its leading bit.\<close>

lemma round64_pos:
  assumes "pow2 k \<le> x" and "x < pow2 (k + 1)"
    and "e = max (k - 52) (- 1074)"
    and "r = of_int (roundHalfEven (x / pow2 e)) * pow2 e"
    and "r < pow2 1024"
  shows "round64 x = Fin r"
proof -
  have x: "0 < x" using assms(1) pow2_pos[of k] by linarith
  have "ilog2 \<bar>x\<bar> = k" using assms(1,2) x by (intro ilog2_eqI) simp_all
  then have "magnitude64 \<bar>x\<bar> = r" using x assms(3,4) by (simp add: magnitude64_def Let_def)
  then show ?thesis using x assms(5) by (simp add: round64_unfold)
qed

lemma round64_minus: "round64 (- x) = num_neg (round64 x)"
proof (cases "x = 0")
  case True
  then show ?thesis by (simp add: round64_0)
next
  case False
  then show ?thesis by (cases "0 < x") (auto simp: round64_unfold)
qed

lemma floor_rat_div_numeral:
  "\<lfloor>(numeral a :: rat) / numeral b\<rfloor> = numeral a div numeral b"
  by (metis floor_divide_of_int_eq of_int_numeral)

lemma roundHalfEven_of_int: "roundHalfEven (of_int k) = k"
  by (simp add: roundHalfEven_def)

lemma roundHalfEven_numeral: "roundHalfEven (numeral k) = numeral k"
  using roundHalfEven_of_int[of "numeral k"] by simp

subsection \<open>The record builder\<close>

lemma buildRows_origin:
  "t \<in> set (buildRows h fid k rs) \<Longrightarrow> \<exists>r\<in>set rs. \<exists>k'. buildRow h fid k' r = Some t"
proof (induction rs arbitrary: k)
  case Nil
  then show ?case by simp
next
  case (Cons r rs)
  show ?case
  proof (cases "buildRow h fid k r")
    case None
    then have "t \<in> set (buildRows h fid k rs)" using Cons.prems by simp
    then show ?thesis using Cons.IH by auto
  next
    case (Some u)
    then have "t = u \<or> t \<in> set (buildRows h fid (Suc k) rs)" using Cons.prems by simp
    then show ?thesis
    proof
      assume "t = u"
      then show ?thesis using Some by auto
    next
      assume "t \<in> set (buildRows h fid (Suc k) rs)"
      then show ?thesis using Cons.IH by auto
    qed
  qed
qed

lemma parseCSV_origin:
  assumes "t \<in> set (parseCSV h csvContent fid)"
  shows "\<exists>r\<in>set (papaParse h csvContent). \<exists>k. buildRow h fid k r = Some t"
  using assms buildRows_origin by (simp add: parseCSV_def set_sortBy)

lemma parseAmount_not_NaN: "parseAmount s \<noteq> NaN"
  by (simp add: parseAmount_def Let_def isNaN_def)

lemma parseAmount_unparsable: "parseFloat (cleanAmount s) = NaN \<Longrightarrow> parseAmount s = Fin 0"
  by (simp add: parseAmount_def Let_def isNaN_def)

lemma not_le_zero: "x \<noteq> NaN \<Longrightarrow> \<not> num_le x (Fin 0) \<Longrightarrow> num_lt (Fin 0) x"
  by (cases x) (auto simp: num_le_def)

lemma buildRow_SomeD:
  assumes "buildRow h fid k r = Some t"
  shows "\<not> falsy (r ''Amount'')"
    and "\<not> num_le (parseAmount (the (r ''Amount''))) (Fin 0)"
    and "t = \<lparr> txId = randomId h k,
               date = parseDate h (the (r ''Date'')),
               description = trim (the (r ''Description'')),
               amount = parseAmount (the (r ''Amount'')),
               category = simplifyCategory (orDefault (r ''Category'') ''Other''),
               city = elemAt (map trim (splitOn isNewline (orDefault (r ''City/State'') []))) 0,
               state = elemAt (map trim (splitOn isNewline (orDefault (r ''City/State'') []))) 1,
               fileId = fid \<rparr>"
proof -
  let ?A = "falsy (r ''Date'') \<or> falsy (r ''Description'') \<or> falsy (r ''Amount'')"
  let ?B = "num_le (parseAmount (the (r ''Amount''))) (Fin 0)"
  have A: "\<not> ?A"
  proof
    assume ?A
    then have "buildRow h fid k r = None" unfolding buildRow_def Let_def by (rule if_P)
    then show False using assms by simp
  qed
  have B: "\<not> ?B"
  proof
    assume ?B
    then have "buildRow h fid k r = None" unfolding buildRow_def Let_def
      by (simp only: A if_False if_True)
    then show False using assms by simp
  qed
  show "\<not> falsy (r ''Amount'')" using A by blast
  show "\<not> ?B" by (rule B)
  have "buildRow h fid k r = Some \<lparr> txId = randomId h k,
               date = parseDate h (the (r ''Date'')),
               description = trim (the (r ''Description'')),
               amount = parseAmount (the (r ''Amount'')),
               category = simplifyCategory (orDefault (r ''Category'') ''Other''),
               city = elemAt (map trim (splitOn isNewline (orDefault (r ''City/State'') []))) 0,
               state = elemAt (map trim (splitOn isNewline (orDefault (r ''City/State'') []))) 1,
               fileId = fid \<rparr>"
    unfolding buildRow_def Let_def by (simp only: A B if_False)
  then show "t = \<lparr> txId = randomId h k,
               date = parseDate h (the (r ''Date'')),
               description = trim (the (r ''Description'')),
               amount = parseAmount (the (r ''Amount'')),
               category = simplifyCategory (orDefault (r ''Category'') ''Other''),
               city = elemAt (map trim (splitOn isNewline (orDefault (r ''City/State'') []))) 0,
               state = elemAt (map trim (splitOn isNewline (orDefault (r ''City/State'') []))) 1,
               fileId = fid \<rparr>"
    using assms by simp
qed

lemma buildRow_amount:
  assumes "buildRow h fid k r = Some t"
  shows "\<exists>s. r ''Amount'' = Some s \<and> amount t = parseAmount s \<and> num_lt (Fin 0) (amount t)"
proof -
  obtain s where s: "r ''Amount'' = Some s"
    using buildRow_SomeD(1)[OF assms] by (cases "r ''Amount''") (auto simp: falsy_def)
  have "amount t = parseAmount s"
    using s by (subst buildRow_SomeD(3)[OF assms]) simp
  moreover have "\<not> num_le (parseAmount s) (Fin 0)"
    using buildRow_SomeD(2)[OF assms] s by simp
  ultimately show ?thesis using s parseAmount_not_NaN[of s] not_le_zero by auto
qed

lemma buildRow_dropped:
  "r ''Amount'' = Some s \<Longrightarrow> num_le (parseAmount s) (Fin 0) \<Longrightarrow> buildRow h fid k r = None"
  by (simp add: buildRow_def Let_def)

lemma splitOn_first: "\<exists>ws. splitOn sep s = takeWhile (\<lambda>c. \<not> sep c) s # ws"
  by (induction s) (auto split: list.splits)

lemma splitOn_no_sep: "\<forall>c\<in>set s. \<not> sep c \<Longrightarrow> splitOn sep s = [s]"
  by (induction s) auto

lemma splitOn_at_sep:
  "sep c \<Longrightarrow> \<forall>x\<in>set a. \<not> sep x \<Longrightarrow> splitOn sep (a @ c # b) = a # splitOn sep b"
  by (induction a) auto

lemma splitOn_second:
  assumes "\<exists>c\<in>set s. sep c"
  shows "\<exists>ws. splitOn sep s = takeWhile (\<lambda>c. \<not> sep c) s
            # takeWhile (\<lambda>c. \<not> sep c) (tl (dropWhile (\<lambda>c. \<not> sep c) s)) # ws"
proof -
  define a where "a = takeWhile (\<lambda>c. \<not> sep c) s"
  define rest where "rest = dropWhile (\<lambda>c. \<not> sep c) s"
  have "rest \<noteq> []" using assms by (auto simp: rest_def)
  then obtain c b where cb: "rest = c # b" by (cases rest) auto
  then have "sep c" using hd_dropWhile[of "\<lambda>c. \<not> sep c" s] by (simp add: rest_def)
  have s: "s = a @ c # b" using cb by (metis a_def rest_def takeWhile_dropWhile_id)
  have "\<forall>x\<in>set a. \<not> sep x" by (auto simp: a_def dest: set_takeWhileD)
  then have "splitOn sep s = a # splitOn sep b" using s \<open>sep c\<close> by (simp add: splitOn_at_sep)
  moreover obtain ws where "splitOn sep b = takeWhile (\<lambda>c. \<not> sep c) b # ws"
    using splitOn_first by blast
  moreover have "b = tl rest" using cb by simp
  ultimately show ?thesis by (simp add: a_def rest_def)
qed

text \<open>City and state of a record, from the cell of the combined column.\<close>

lemma buildRow_city_state:
  assumes "buildRow h fid k r = Some t"
  shows "city t = Some (trim (takeWhile (\<lambda>c. \<not> isNewline c) (orDefault (r ''City/State'') [])))
       \<and> state t =
           (if \<exists>c\<in>set (orDefault (r ''City/State'') []). isNewline c
            then Some (trim (takeWhile (\<lambda>c. \<not> isNewline c)
                   (tl (dropWhile (\<lambda>c. \<not> isNewline c) (orDefault (r ''City/State'') [])))))
            else None)"
proof -
  define cs where "cs = orDefault (r ''City/State'') []"
  have c: "city t = elemAt (map trim (splitOn isNewline cs)) 0"
    unfolding cs_def by (subst buildRow_SomeD(3)[OF assms]) simp
  have s: "state t = elemAt (map trim (splitOn isNewline cs)) 1"
    unfolding cs_def by (subst buildRow_SomeD(3)[OF assms]) simp
  obtain ws where ws: "splitOn isNewline cs = takeWhile (\<lambda>c. \<not> isNewline c) cs # ws"
    using splitOn_first by blast
  have city: "city t = Some (trim (takeWhile (\<lambda>c. \<not> isNewline c) cs))"
    using c ws by simp
  have st: "state t =
           (if \<exists>c\<in>set cs. isNewline c
            then Some (trim (takeWhile (\<lambda>c. \<not> isNewline c)
                   (tl (dropWhile (\<lambda>c. \<not> isNewline c) cs))))
            else None)"
  proof (cases "\<exists>c\<in>set cs. isNewline c")
    case True
    then obtain ws' where "splitOn isNewline cs = takeWhile (\<lambda>c. \<not> isNewline c) cs
            # takeWhile (\<lambda>c. \<not> isNewline c) (tl (dropWhile (\<lambda>c. \<not> isNewline c) cs)) # ws'"
      using splitOn_second[of cs isNewline] by blast
    then show ?thesis using s True by simp
  next
    case False
    then have "splitOn isNewline cs = [cs]" by (intro splitOn_no_sep) simp
    then show ?thesis using s False by simp
  qed
  show ?thesis using city st by (simp add: cs_def)
qed

subsection \<open>Evaluating examples\<close>

lemma onGrid_of_int: "onGrid (of_int n)"
  using onGrid_scaled[of 0 n] by (simp add: pow2_def)

lemma onGrid_numeral: "onGrid (numeral n)"
  using onGrid_of_int[of "numeral n"] by simp

lemma onGrid_1: "onGrid 1"
  using onGrid_of_int[of 1] by simp

lemma num_sub_positive:
  "onGrid a \<Longrightarrow> onGrid b \<Longrightarrow> num_lt (Fin 0) (num_sub (Fin b) (Fin a)) \<longleftrightarrow> a < b"
  using goodTotal_cmp round64_positive_iff[of "b + - a"] onGrid_add[of b "- a"] onGrid_minus[of a]
  by (simp add: num_sub_def)

lemma round64_1: "round64 1 = Fin 1"
  by (rule round64_pos[where k = 0 and e = "- 52"])
     (simp_all add: pow2_def roundHalfEven_numeral)

lemma round64_2: "round64 2 = Fin 2"
  by (rule round64_pos[where k = 1 and e = "- 51"])
     (simp_all add: pow2_def roundHalfEven_numeral)

lemma round64_3: "round64 3 = Fin 3"
  by (rule round64_pos[where k = 1 and e = "- 51"])
     (simp_all add: pow2_def roundHalfEven_numeral)

lemma round64_1e16: "round64 10000000000000000 = Fin 10000000000000000"
  by (rule round64_pos[where k = 53 and e = 1])
     (simp_all add: pow2_def roundHalfEven_numeral)

lemma round64_1e16_1: "round64 10000000000000001 = Fin 10000000000000000"
  by (rule round64_pos[where k = 53 and e = 1])
     (simp_all add: pow2_def roundHalfEven_def Let_def floor_rat_div_numeral)

lemma round64_1e16_2: "round64 10000000000000002 = Fin 10000000000000002"
  by (rule round64_pos[where k = 53 and e = 1])
     (simp_all add: pow2_def roundHalfEven_numeral)

lemmas evals = round64_0 round64_1 round64_2 round64_3 round64_1e16 round64_1e16_1 round64_1e16_2
  num_sub_positive onGrid_numeral onGrid_1 onGrid_0

lemma sampleTx_sel:
  "amount (sampleTx d a c) = a" "description (sampleTx d a c) = d" "category (sampleTx d a c) = c"
  by (simp_all add: sampleTx_def)

lemma truncate_minus_1: "truncate (- 1) = - 1"
  by (simp add: truncate_def ceiling_def)

lemma ex_merchants:
  "merchantOf (sampleTx ''ACME'' a c) = ''ACME''"
  "merchantOf (sampleTx ''BOLT'' a c) = ''BOLT''"
  "merchantOf (sampleTx ''7-ELEVEN'' a c) = []"
  "merchantOf (sampleTx ''365 MARKET'' a c) = []"
  by (simp_all add: merchantOf_def sampleTx_def merchantName_def trim_def isDigit_def
      isWhite_def charCode_def)

lemma round64_25_2: "round64 (25 / 2) = Fin (25 / 2)"
  by (rule round64_pos[where k = 3 and e = "- 49"])
     (simp_all add: pow2_def roundHalfEven_numeral)

lemma round64_45: "round64 45 = Fin 45"
  by (rule round64_pos[where k = 5 and e = "- 47"])
     (simp_all add: pow2_def roundHalfEven_numeral)

lemma round64_neg_45: "round64 (- 45) = Fin (- 45)"
  by (simp add: round64_minus round64_45)

lemmas parse_defs = parseAmount_def cleanAmount_def parseFloat_def trimStart_def isWhite_def
  isDigit_def charCode_def digitsValue_def digitValue_def pow10_def exponentPart_def isNaN_def

lemma parseAmount_examples:
  "parseAmount ''$12.50'' = Fin (25 / 2)"
  "parseAmount ''-45.00'' = Fin (- 45)"
  "parseAmount ''abc'' = Fin 0"
  by (simp_all add: parse_defs round64_25_2 round64_neg_45)


lemma round64_30: "round64 30 = Fin 30"
  by (rule round64_pos[where k = 4 and e = "- 48"])
     (simp_all add: pow2_def roundHalfEven_numeral)

lemma round64_100: "round64 100 = Fin 100"
  by (rule round64_pos[where k = 6 and e = "- 46"])
     (simp_all add: pow2_def roundHalfEven_numeral)

lemma round64_101_2: "round64 (101 / 2) = Fin (101 / 2)"
  by (rule round64_pos[where k = 5 and e = "- 47"])
     (simp_all add: pow2_def roundHalfEven_numeral)

lemma onGrid_101_2: "onGrid (101 / 2)"
  using onGrid_scaled[of "- 1" 101] by (simp add: pow2_def)

lemma getCategoryColor_examples:
  "getCategoryColor ''Travel'' = ''#8b5cf6''" "getCategoryColor ''Groceries'' = ''#f97316''"
  by code_simp+

subsection \<open>The date parser\<close>

lemma parseDate_fallback:
  assumes "length (splitOn (\<lambda>c. c = CHR ''/'') s) \<noteq> 3" and "dateFromString h s = InvalidDate"
  shows "parseDate h s = DateTV (currentTime h)"
proof -
  have "\<not> (\<exists>p0 p1 p2. splitOn (\<lambda>c. c = CHR ''/'') s = [p0, p1, p2])"
    using assms(1) by auto
  then show ?thesis using assms(2)
    by (auto simp: parseDate_def Let_def isNaN_def split: list.splits)
qed


lemma parseDate_fallback_valid:
  assumes "length (splitOn (\<lambda>c. c = CHR ''/'') s) \<noteq> 3"
  shows "parseDate h s \<noteq> InvalidDate"
proof -
  have "\<not> (\<exists>p0 p1 p2. splitOn (\<lambda>c. c = CHR ''/'') s = [p0, p1, p2])"
    using assms by auto
  then show ?thesis
    by (cases "dateFromString h s") (auto simp: parseDate_def Let_def isNaN_def split: list.splits)
qed

subsection \<open>The CSV export\<close>

lemma doubleQuotes_concat:
  "doubleQuotes d = concat (map (\<lambda>c. if c = CHR 0x22 then [CHR 0x22, CHR 0x22] else [c]) d)"
  by (induction d) auto

lemma undoubleQuotes_doubleQuotes: "undoubleQuotes (doubleQuotes d) = Some d"
proof (induction d)
  case Nil
  then show ?case by simp
next
  case (Cons c d)
  show ?case
  proof (cases "c = CHR 0x22")
    case True
    then show ?thesis using Cons by simp
  next
    case False
    show ?thesis
    proof (cases "doubleQuotes d")
      case Nil
      then have "d = []" by (cases d) (auto split: if_splits)
      then show ?thesis using False by simp
    next
      case (Cons x xs)
      then show ?thesis using False Cons.IH by simp
    qed
  qed
qed

lemma unquoteField_quoted: "unquoteField ([CHR 0x22] @ doubleQuotes d @ [CHR 0x22]) = Some d"
  by (simp add: unquoteField_def undoubleQuotes_doubleQuotes butlast_append)

lemma joinStr_headers: "joinStr '','' csvHeaders = ''Date,Description,Amount,Category,City,State''"
  by (simp add: csvHeaders_def)

lemma joinStr_csvRow:
  "joinStr '','' (csvRow h t) =
     toLocaleDateString h (date t) @ '','' @ [CHR 0x22] @ doubleQuotes (description t) @ [CHR 0x22]
       @ '','' @ toFixed2 (amount t) @ '','' @ category t @ '','' @ orDefault (city t) []
       @ '','' @ orDefault (state t) []"
  by (simp add: csvRow_def)

lemma orDefault_Nil: "orDefault v [] = (case v of None \<Rightarrow> [] | Some s \<Rightarrow> s)"
  by (simp add: orDefault_def split: option.splits)

lemma showNat_small: "n < 10 \<Longrightarrow> showNat n = [char_of (48 + n)]"
  by (simp add: showNat.simps)

lemma showNat_step: "10 \<le> n \<Longrightarrow> showNat n = showNat (n div 10) @ [char_of (48 + n mod 10)]"
  by (subst showNat.simps) simp

lemma showNat_nonempty: "showNat n \<noteq> []"
  by (subst showNat.simps) simp

lemma showNat_two:
  assumes "100 \<le> n"
  shows "showNat n = showNat (n div 100) @ [char_of (48 + n div 10 mod 10), char_of (48 + n mod 10)]"
proof -
  have "10 \<le> n div 10" using assms by simp
  then have "showNat (n div 10) = showNat (n div 10 div 10) @ [char_of (48 + n div 10 mod 10)]"
    by (rule showNat_step)
  moreover have "n div 10 div 10 = n div 100" by (simp add: div_mult2_eq)
  moreover have "showNat n = showNat (n div 10) @ [char_of (48 + n mod 10)]"
    using assms by (intro showNat_step) simp
  ultimately show ?thesis by simp
qed

lemma char_of_code: "of_char c = (n :: nat) \<Longrightarrow> char_of n = c"
  by (metis char_of_char)

lemma digit_chars:
  "char_of (48 :: nat) = CHR ''0''" "char_of (49 :: nat) = CHR ''1''"
  "char_of (50 :: nat) = CHR ''2''" "char_of (51 :: nat) = CHR ''3''"
  "char_of (52 :: nat) = CHR ''4''" "char_of (53 :: nat) = CHR ''5''"
  "char_of (54 :: nat) = CHR ''6''" "char_of (55 :: nat) = CHR ''7''"
  "char_of (56 :: nat) = CHR ''8''" "char_of (57 :: nat) = CHR ''9''"
  by (rule char_of_code, simp)+

lemma toFixed2_digits:
  assumes "0 \<le> x" and "x < 10 ^ 21"
  shows "toFixed2 (Fin x) =
     showNat (nat \<lfloor>x * 100 + 1 / 2\<rfloor> div 100) @ ''.''
       @ [char_of (48 + nat \<lfloor>x * 100 + 1 / 2\<rfloor> div 10 mod 10),
          char_of (48 + nat \<lfloor>x * 100 + 1 / 2\<rfloor> mod 10)]"
proof -
  define n where "n = nat \<lfloor>x * 100 + 1 / 2\<rfloor>"
  define m where "m = showNat n"
  define m' where "m' = replicate (3 - length m) (CHR ''0'') @ m"
  have tf: "toFixed2 (Fin x) = take (length m' - 2) m' @ ''.'' @ drop (length m' - 2) m'"
    using assms by (simp add: toFixed2_def Let_def n_def m_def m'_def)
  have "take (length m' - 2) m' = showNat (n div 100)
      \<and> drop (length m' - 2) m' = [char_of (48 + n div 10 mod 10), char_of (48 + n mod 10)]"
  proof (cases "n < 10")
    case True
    then have "m = [char_of (48 + n)]" by (simp add: m_def showNat_small)
    then have "m' = [CHR ''0'', CHR ''0'', char_of (48 + n)]"
      by (simp add: m'_def numeral_3_eq_3)
    moreover have "n div 100 = 0" "n div 10 mod 10 = 0" "n mod 10 = n" using True by simp_all
    ultimately show ?thesis by (simp add: showNat_small digit_chars)
  next
    case False
    show ?thesis
    proof (cases "n < 100")
      case True
      have d: "n div 10 < 10" using True by simp
      have "m = showNat (n div 10) @ [char_of (48 + n mod 10)]"
        using False by (simp add: m_def showNat_step)
      then have "m = [char_of (48 + n div 10), char_of (48 + n mod 10)]"
        using d by (simp add: showNat_small)
      then have "m' = [CHR ''0'', char_of (48 + n div 10), char_of (48 + n mod 10)]"
        by (simp add: m'_def numeral_3_eq_3)
      moreover have "n div 100 = 0" "n div 10 mod 10 = n div 10" using True d by simp_all
      ultimately show ?thesis by (simp add: showNat_small digit_chars)
    next
      case big: False
      then have "m = showNat (n div 100) @ [char_of (48 + n div 10 mod 10), char_of (48 + n mod 10)]"
        by (simp add: m_def showNat_two)
      moreover have "1 \<le> length (showNat (n div 100))"
        using showNat_nonempty[of "n div 100"] by (simp add: Suc_le_eq)
      ultimately have "3 \<le> length m" by simp
      then have "m' = m" by (simp add: m'_def)
      moreover note \<open>m = showNat (n div 100) @ [char_of (48 + n div 10 mod 10), char_of (48 + n mod 10)]\<close>
      ultimately show ?thesis by simp
    qed
  qed
  then show ?thesis using tf by (simp add: n_def)
qed

lemma toFixed2_example: "toFixed2 (Fin (25 / 2)) = ''12.50''"
  by (simp add: toFixed2_digits floor_rat_div_numeral showNat_step showNat_small digit_chars)


subsection \<open>Two imported documents\<close>

lemma orDefault_falsy: "falsy v \<Longrightarrow> orDefault v d = d"
  by (auto simp: falsy_def orDefault_def)

lemma trim_Nil: "trim [] = []"
  by (simp add: trim_def)

lemma civilFromDays_example: "civilFromDays 19797 = (2024, 3, 15)"
  by code_simp

lemma usDateString_example: "usDateString (DateTV 1710460800000) = ''3/15/2024''"
  by (simp add: usDateString_def civilFromDays_example showInt_def showNat_step showNat_small
      digit_chars)

lemma hostWithRows_sel:
  "papaParse (hostWithRows rs) content = rs"
  "dateFromParts (hostWithRows rs) = utcDateFromParts"
  "randomId (hostWithRows rs) k = ''id'' @ showNat k"
  by (simp_all add: hostWithRows_def utcHost_def)

lemma round64_15: "round64 15 = Fin 15"
  by (rule round64_pos[where k = 3 and e = "- 49"])
     (simp_all add: pow2_def roundHalfEven_numeral)

lemma round64_2024: "round64 2024 = Fin 2024"
  by (rule round64_pos[where k = 10 and e = "- 42"])
     (simp_all add: pow2_def roundHalfEven_numeral)

lemma parseInt_examples:
  "parseInt ''03'' = Fin 3" "parseInt ''15'' = Fin 15" "parseInt ''2024'' = Fin 2024"
  by (simp_all add: parseInt_def trimStart_def isWhite_def isDigit_def charCode_def
      digitsValue_def digitValue_def round64_3 round64_15 round64_2024)

lemma utcDateFromParts_example: "utcDateFromParts 2024 2 15 = DateTV 1710460800000"
  by code_simp

lemma parseDate_example: "parseDate (hostWithRows rs) ''03/15/2024'' = DateTV 1710460800000"
  by (simp add: parseDate_def parseInt_examples num_sub_def round64_2 hostWithRows_sel
      utcDateFromParts_example)

lemma simplifyCategory_examples:
  "simplifyCategory ''Restaurants'' = ''Restaurant''" "simplifyCategory ''Other'' = ''Other''"
  by code_simp+

lemma showNat_0: "showNat 0 = ''0''"
  by (simp add: showNat_small digit_chars)

lemma parseCSV_starbucks:
  "parseCSV (hostWithRows [starbucksRow, paymentRow, unparsableRow]) ''csv'' ''f1'' =
     [\<lparr> txId = ''id0'', date = DateTV 1710460800000, description = ''STARBUCKS #1234'',
        amount = Fin (25 / 2), category = ''Restaurant'', city = Some [], state = None,
        fileId = ''f1'' \<rparr>]"
  by (simp add: parseCSV_def sortBy_def buildRow_def falsy_def orDefault_def
      hostWithRows_sel starbucksRow_def paymentRow_def unparsableRow_def
      parseAmount_examples num_le_def trim_Nil parseDate_example simplifyCategory_examples
      showNat_0 trim_def isWhite_def charCode_def)

lemma parseCSV_austin:
  "parseCSV (hostWithRows [austinRow]) ''csv'' ''f1'' =
     [\<lparr> txId = ''id0'', date = DateTV 1710460800000, description = ''TACO TRUCK'',
        amount = Fin (25 / 2), category = ''Other'', city = Some ''Austin'', state = Some ''TX'',
        fileId = ''f1'' \<rparr>]"
  by (simp add: parseCSV_def sortBy_def buildRow_def falsy_def orDefault_def
      hostWithRows_sel austinRow_def isNewline_def
      parseAmount_examples num_le_def parseDate_example simplifyCategory_examples
      showNat_0 trim_def isWhite_def charCode_def)

section \<open>The claims\<close>

subsection \<open>C1: the limit of the top-merchant list\<close>

text \<open>
  C1, as stated, fails for a negative limit: with two merchants and the limit \<open>-1\<close>,
  which is at most 0, the result is not empty but holds the first of the two entries.
\<close>

theorem getTopMerchants_negative_limit_counterexample:
  "num_le (Fin (- 1)) (Fin 0)
   \<and> getTopMerchants [sampleTx ''ACME'' (Fin 2) ''Other'', sampleTx ''BOLT'' (Fin 1) ''Other'']
        (Some (Fin (- 1)))
     = [\<lparr>mt_name = ''ACME'', mt_total = Fin 2, mt_count = 1\<rparr>]"
  by (simp add: getTopMerchants_def groupTotals_def addTo_def mapGet_def ex_merchants
      sampleTx_sel sortBy_def byMtTotalDesc_def slice0_def truncate_minus_1 num_le_def evals)

text \<open>
  C1, amended. A limit of 0, or any limit above \<open>-1\<close> and at most 0, yields an empty
  result, and so does minus infinity; a finite limit \<open>r\<close> of \<open>-1\<close> or less yields
  the full ranking without its last \<open>\<lfloor>-r\<rfloor>\<close> entries (empty only when there are
  no more merchants than that); a limit greater than the number of distinct merchant
  names yields one entry for every distinct merchant name.
\<close>

theorem getTopMerchants_limit:
  "(num_lt (Fin (- 1)) limit \<and> num_le limit (Fin 0) \<longrightarrow> getTopMerchants ts (Some limit) = [])
   \<and> getTopMerchants ts (Some NInf) = []
   \<and> (r \<le> - 1 \<longrightarrow>
        getTopMerchants ts (Some (Fin r))
          = take (card (merchantOf ` set ts) - nat \<lfloor>- r\<rfloor>) (getTopMerchants ts (Some PInf)))
   \<and> (num_lt (Fin (of_nat (card (merchantOf ` set ts)))) limit \<longrightarrow>
        distinct (map mt_name (getTopMerchants ts (Some limit)))
      \<and> set (map mt_name (getTopMerchants ts (Some limit))) = merchantOf ` set ts
      \<and> length (getTopMerchants ts (Some limit)) = card (merchantOf ` set ts))"
proof -
  define S where "S = sortBy byMtTotalDesc (merchantEntries ts)"
  have len: "length S = card (merchantOf ` set ts)"
    by (simp add: S_def length_sortBy length_merchantEntries)
  have get: "getTopMerchants ts (Some l) = slice0 S l" for l
    by (simp add: getTopMerchants_entries S_def)
  have names: "distinct (map mt_name S)" "set (map mt_name S) = merchantOf ` set ts"
    by (simp_all add: S_def distinct_map_sortBy set_sortBy merchantEntries_keys
        merchantEntries_names distinct_groupTotals)
  have 1: "getTopMerchants ts (Some limit) = []"
    if "num_lt (Fin (- 1)) limit" "num_le limit (Fin 0)"
    using that by (simp add: get slice0_empty)
  have 2: "getTopMerchants ts (Some NInf) = []"
    by (simp add: get slice0_NInf)
  have full: "getTopMerchants ts (Some PInf) = S"
    by (simp add: get slice0_def)
  have 3: "getTopMerchants ts (Some (Fin r))
          = take (card (merchantOf ` set ts) - nat \<lfloor>- r\<rfloor>) (getTopMerchants ts (Some PInf))"
    if "r \<le> - 1"
    using that by (simp add: get[of "Fin r"] full slice0_negative len)
  have 4: "getTopMerchants ts (Some limit) = S"
    if "num_lt (Fin (of_nat (card (merchantOf ` set ts)))) limit"
    using that by (simp add: get slice0_all len num_lt_imp_le)
  show ?thesis using 1 2 3 4 names len by simp
qed

text \<open>
  Two merchants: the limit 0 gives the empty list, the limit \<open>-1\<close> the ranking
  without its last entry, the limit 5 both merchants.
\<close>

theorem getTopMerchants_limit_witness:
  "getTopMerchants [sampleTx ''ACME'' (Fin 2) ''Other'', sampleTx ''BOLT'' (Fin 1) ''Other'']
      (Some (Fin 0)) = []
   \<and> getTopMerchants [sampleTx ''ACME'' (Fin 2) ''Other'', sampleTx ''BOLT'' (Fin 1) ''Other'']
      (Some (Fin (- 1)))
     = take 1 (getTopMerchants
         [sampleTx ''ACME'' (Fin 2) ''Other'', sampleTx ''BOLT'' (Fin 1) ''Other''] (Some PInf))
   \<and> length (getTopMerchants
         [sampleTx ''ACME'' (Fin 2) ''Other'', sampleTx ''BOLT'' (Fin 1) ''Other''] (Some (Fin 5))) = 2
   \<and> set (map mt_name (getTopMerchants
         [sampleTx ''ACME'' (Fin 2) ''Other'', sampleTx ''BOLT'' (Fin 1) ''Other''] (Some (Fin 5))))
     = {''ACME'', ''BOLT''}"
proof -
  let ?ts = "[sampleTx ''ACME'' (Fin 2) ''Other'', sampleTx ''BOLT'' (Fin 1) ''Other'']"
  have a: "num_lt (Fin (- 1)) (Fin 0) \<and> num_le (Fin 0) (Fin 0)"
    by (simp add: num_le_def)
  have b: "(- 1 :: rat) \<le> - 1" by simp
  have names: "merchantOf ` set ?ts = {''ACME'', ''BOLT''}"
    by (simp add: ex_merchants)
  have card: "card (merchantOf ` set ?ts) = 2"
    by (simp only: names) simp
  have c: "num_lt (Fin (of_nat (card (merchantOf ` set ?ts)))) (Fin 5)"
    by (simp only: card) simp
  have n: "card (merchantOf ` set ?ts) - nat \<lfloor>- (- 1 :: rat)\<rfloor> = 1"
    by (simp only: card) simp
  show ?thesis
    using getTopMerchants_limit[of "Fin 0" ?ts "- 1"] getTopMerchants_limit[of "Fin 5" ?ts "- 1"]
      a b c
    by (simp only: n names card) simp
qed

subsection \<open>C2: the date parser\<close>

text \<open>
  C2 fails in the code on the input "a/b/c": the string has three parts between
  slashes, none of them starts with a digit, and the date built from them is the invalid
  date (its time value is \<open>NaN\<close>), on every host. The check for an invalid date
  guards only the other branch, the one for strings without three parts.
\<close>

theorem parseDate_three_parts_invalid:
  "parseDate h ''a/b/c'' = InvalidDate \<and> isNaN (getTime (parseDate h ''a/b/c''))"
  by (simp add: parseDate_def parseInt_def trimStart_def isWhite_def isDigit_def charCode_def
      num_sub_def isNaN_def)

subsection \<open>C3: the colour of a canonical category\<close>

text \<open>
  C3 fails in the code for the canonical categories "Shopping" and "Subscriptions":
  the colour table assigns them a colour of their own, but \<open>getCategoryColor\<close>
  normalises its argument once more, neither name contains a keyword of its own group,
  and the result is the colour of "Other".
\<close>

theorem getCategoryColor_Shopping:
  "colorOf ''Shopping'' = Some ''#22c55e'' \<and> getCategoryColor ''Shopping'' = ''#a3a3a3''
   \<and> colorOf ''Subscriptions'' = Some ''#3b82f6'' \<and> getCategoryColor ''Subscriptions'' = ''#a3a3a3''"
  by code_simp

text \<open>
  The colours of all ten canonical categories, in the order of the table: eight are the
  colour of the table, the fourth and the sixth are the colour of "Other".
\<close>

lemma getCategoryColor_canonical:
  "map colorOf canonical =
     [Some ''#ef4444'', Some ''#f97316'', Some ''#eab308'', Some ''#22c55e'', Some ''#06b6d4'',
      Some ''#3b82f6'', Some ''#8b5cf6'', Some ''#ec4899'', Some ''#6b7280'', Some ''#a3a3a3'']
   \<and> map getCategoryColor canonical =
     [''#ef4444'', ''#f97316'', ''#eab308'', ''#a3a3a3'', ''#06b6d4'',
      ''#a3a3a3'', ''#8b5cf6'', ''#ec4899'', ''#6b7280'', ''#a3a3a3'']"
  by code_simp

subsection \<open>C4: the columns of the CSV export\<close>

text \<open>
  C4, as stated, fails: the export has six columns, not seven. The header line is
  \<^verbatim>\<open>Date,Description,Amount,Category,City,State\<close> and every row has six fields:
  the third is the amount with two decimals and the fourth is the category; there is no
  column for the unformatted amount.
\<close>

theorem exportToCSV_columns_counterexample:
  "exportToCSV utcHost [] = ''Date,Description,Amount,Category,City,State''
   \<and> length (splitOn (\<lambda>c. c = CHR '','') (exportToCSV utcHost [])) = 6
   \<and> length (csvRow utcHost (sampleTx ''STARBUCKS'' (Fin (25 / 2)) ''Restaurant'')) \<noteq> 7
   \<and> csvRow utcHost (sampleTx ''STARBUCKS'' (Fin (25 / 2)) ''Restaurant'') ! 2 = ''12.50''
   \<and> csvRow utcHost (sampleTx ''STARBUCKS'' (Fin (25 / 2)) ''Restaurant'') ! 3 = ''Restaurant''"
  by (simp add: exportToCSV_def csvHeaders_def csvRow_def sampleTx_sel toFixed2_example)

text \<open>
  C4, amended. For every record sequence the export is the header line
  \<^verbatim>\<open>Date,Description,Amount,Category,City,State\<close> followed by one line per record,
  the lines joined by line feeds; a line has six fields separated by commas, in this
  order: the date in the host's locale format, the description between double quotes
  with every double quote inside written twice (so that the description can be read
  back), the amount formatted to two decimals, the category, the city and the state
  (each empty when absent). An amount \<open>x\<close> with \<open>0 \<le> x < 10^21\<close> is written as
  the digits of the whole part, a point and two digits, from the integer nearest to
  \<open>100 x\<close>.
\<close>

theorem exportToCSV_layout:
  "exportToCSV h ts =
     joinStr [CHR 0x0A]
       (''Date,Description,Amount,Category,City,State''
        # map (\<lambda>t. toLocaleDateString h (date t) @ '',''
                   @ [CHR 0x22]
                   @ concat (map (\<lambda>c. if c = CHR 0x22 then [CHR 0x22, CHR 0x22] else [c])
                               (description t))
                   @ [CHR 0x22] @ '',''
                   @ toFixed2 (amount t) @ '',''
                   @ category t @ '',''
                   @ (case city t of None \<Rightarrow> [] | Some s \<Rightarrow> s) @ '',''
                   @ (case state t of None \<Rightarrow> [] | Some s \<Rightarrow> s)) ts)
   \<and> length (csvRow h t) = 6
   \<and> unquoteField (csvRow h t ! 1) = Some (description t)
   \<and> (0 \<le> x \<and> x < 10 ^ 21 \<longrightarrow>
        toFixed2 (Fin x) =
          showNat (nat \<lfloor>x * 100 + 1 / 2\<rfloor> div 100) @ ''.''
            @ [char_of (48 + nat \<lfloor>x * 100 + 1 / 2\<rfloor> div 10 mod 10),
               char_of (48 + nat \<lfloor>x * 100 + 1 / 2\<rfloor> mod 10)])"
proof -
  have "map (\<lambda>r. joinStr '','' r) (map (csvRow h) ts)
      = map (\<lambda>t. toLocaleDateString h (date t) @ '',''
                   @ [CHR 0x22]
                   @ concat (map (\<lambda>c. if c = CHR 0x22 then [CHR 0x22, CHR 0x22] else [c])
                               (description t))
                   @ [CHR 0x22] @ '',''
                   @ toFixed2 (amount t) @ '',''
                   @ category t @ '',''
                   @ (case city t of None \<Rightarrow> [] | Some s \<Rightarrow> s) @ '',''
                   @ (case state t of None \<Rightarrow> [] | Some s \<Rightarrow> s)) ts"
    by (simp add: joinStr_csvRow orDefault_Nil doubleQuotes_concat)
  then have 1: "exportToCSV h ts =
     joinStr [CHR 0x0A]
       (''Date,Description,Amount,Category,City,State''
        # map (\<lambda>t. toLocaleDateString h (date t) @ '',''
                   @ [CHR 0x22]
                   @ concat (map (\<lambda>c. if c = CHR 0x22 then [CHR 0x22, CHR 0x22] else [c])
                               (description t))
                   @ [CHR 0x22] @ '',''
                   @ toFixed2 (amount t) @ '',''
                   @ category t @ '',''
                   @ (case city t of None \<Rightarrow> [] | Some s \<Rightarrow> s) @ '',''
                   @ (case state t of None \<Rightarrow> [] | Some s \<Rightarrow> s)) ts)"
    by (simp only: exportToCSV_def joinStr_headers)
  have 2: "length (csvRow h t) = 6" by (simp add: csvRow_def)
  have "csvRow h t ! 1 = [CHR 0x22] @ doubleQuotes (description t) @ [CHR 0x22]"
    by (simp add: csvRow_def)
  then have 3: "unquoteField (csvRow h t ! 1) = Some (description t)"
    by (simp only: unquoteField_quoted)
  have 4: "0 \<le> x \<and> x < 10 ^ 21 \<longrightarrow>
        toFixed2 (Fin x) =
          showNat (nat \<lfloor>x * 100 + 1 / 2\<rfloor> div 100) @ ''.''
            @ [char_of (48 + nat \<lfloor>x * 100 + 1 / 2\<rfloor> div 10 mod 10),
               char_of (48 + nat \<lfloor>x * 100 + 1 / 2\<rfloor> mod 10)]"
    using toFixed2_digits[of x] by (intro impI) (elim conjE)
  show ?thesis using 1 2 3 4 by (intro conjI)
qed

text \<open>
  One record, with quotes in its description and no state: the text of the export, and
  the amount 12.5 written as \<^verbatim>\<open>12.50\<close>.
\<close>

theorem exportToCSV_layout_witness:
  "exportToCSV utcHost
     [\<lparr> txId = ''id0'', date = DateTV 1710460800000, description = ''Joe's \"Diner\"'',
        amount = Fin (25 / 2), category = ''Restaurant'', city = Some ''Austin'',
        state = None, fileId = ''f1'' \<rparr>]
   = ''Date,Description,Amount,Category,City,State'' @ [CHR 0x0A]
     @ ''3/15/2024,\"Joe's \"\"Diner\"\"\",12.50,Restaurant,Austin,''
   \<and> (0 :: rat) \<le> 25 / 2 \<and> (25 / 2 :: rat) < 10 ^ 21
   \<and> toFixed2 (Fin (25 / 2)) = ''12.50''"
proof -
  let ?t = "\<lparr> txId = ''id0'', date = DateTV 1710460800000, description = ''Joe's \"Diner\"'',
        amount = Fin (25 / 2), category = ''Restaurant'', city = Some ''Austin'',
        state = None, fileId = ''f1'' \<rparr>"
  note inst = exportToCSV_layout[of utcHost "[?t]" ?t "25 / 2"]
  have d: "toLocaleDateString utcHost (DateTV 1710460800000) = ''3/15/2024''"
    by (simp add: utcHost_def usDateString_example)
  have r: "(0 :: rat) \<le> 25 / 2 \<and> (25 / 2 :: rat) < 10 ^ 21" by simp
  have "0 \<le> (25 / 2 :: rat) \<and> (25 / 2 :: rat) < 10 ^ 21 \<longrightarrow>
        toFixed2 (Fin (25 / 2)) =
          showNat (nat \<lfloor>(25 / 2 :: rat) * 100 + 1 / 2\<rfloor> div 100) @ ''.''
            @ [char_of (48 + nat \<lfloor>(25 / 2 :: rat) * 100 + 1 / 2\<rfloor> div 10 mod 10),
               char_of (48 + nat \<lfloor>(25 / 2 :: rat) * 100 + 1 / 2\<rfloor> mod 10)]"
    using inst by (elim conjE)
  then have f: "toFixed2 (Fin (25 / 2)) = ''12.50''"
    using r by (simp add: floor_rat_div_numeral showNat_step showNat_small digit_chars)
  have "exportToCSV utcHost [?t] =
     joinStr [CHR 0x0A]
       (''Date,Description,Amount,Category,City,State''
        # map (\<lambda>t. toLocaleDateString utcHost (date t) @ '',''
                   @ [CHR 0x22]
                   @ concat (map (\<lambda>c. if c = CHR 0x22 then [CHR 0x22, CHR 0x22] else [c])
                               (description t))
                   @ [CHR 0x22] @ '',''
                   @ toFixed2 (amount t) @ '',''
                   @ category t @ '',''
                   @ (case city t of None \<Rightarrow> [] | Some s \<Rightarrow> s) @ '',''
                   @ (case state t of None \<Rightarrow> [] | Some s \<Rightarrow> s)) [?t])"
    using inst by (rule conjunct1)
  then have e: "exportToCSV utcHost [?t]
     = ''Date,Description,Amount,Category,City,State'' @ [CHR 0x0A]
       @ ''3/15/2024,\"Joe's \"\"Diner\"\"\",12.50,Restaurant,Austin,''"
    by (simp add: d f)
  show ?thesis using e r f by (intro conjI) simp_all
qed

subsection \<open>C5: city and state\<close>

text \<open>
  C5, as stated, fails: for a row without the column City/State the record has the
  empty string as its city, not an absent city; only the state is absent.
\<close>

theorem parseCSV_city_counterexample:
  "starbucksRow ''City/State'' = None
   \<and> map city (parseCSV (hostWithRows [starbucksRow, paymentRow, unparsableRow]) ''csv'' ''f1'')
       = [Some []]
   \<and> map state (parseCSV (hostWithRows [starbucksRow, paymentRow, unparsableRow]) ''csv'' ''f1'')
       = [None]"
  by (simp add: parseCSV_starbucks) (simp add: starbucksRow_def)

text \<open>
  C5, amended. Every record that \<open>parseCSV\<close> produces is built from a row such that,
  with \<open>cs\<close> the text of the row's cell City/State (the empty string when the cell is
  absent or empty): the city is the text of \<open>cs\<close> before its first line break,
  trimmed; the state is the text between the first and the second line break, trimmed,
  when \<open>cs\<close> has a line break, and absent otherwise. So for an absent (or empty)
  column the city is the empty string and the state is absent.
\<close>

theorem parseCSV_city_state:
  assumes "t \<in> set (parseCSV h csvContent fid)"
  shows "\<exists>r\<in>set (papaParse h csvContent). \<exists>k cs.
           buildRow h fid k r = Some t
         \<and> cs = orDefault (r ''City/State'') []
         \<and> city t = Some (trim (takeWhile (\<lambda>c. \<not> isNewline c) cs))
         \<and> state t =
             (if list_ex isNewline cs
              then Some (trim (takeWhile (\<lambda>c. \<not> isNewline c)
                     (tl (dropWhile (\<lambda>c. \<not> isNewline c) cs))))
              else None)
         \<and> (if falsy (r ''City/State'') then city t = Some [] \<and> state t = None
            else r ''City/State'' = Some cs)"
proof -
  obtain r k where r: "r \<in> set (papaParse h csvContent)" and b: "buildRow h fid k r = Some t"
    using parseCSV_origin[OF assms] by blast
  define cs where "cs = orDefault (r ''City/State'') []"
  have c: "city t = Some (trim (takeWhile (\<lambda>c. \<not> isNewline c) cs))"
    and s: "state t =
             (if list_ex isNewline cs
              then Some (trim (takeWhile (\<lambda>c. \<not> isNewline c)
                     (tl (dropWhile (\<lambda>c. \<not> isNewline c) cs))))
              else None)"
    using buildRow_city_state[OF b] by (simp_all only: cs_def list_ex_iff)
  have f: "if falsy (r ''City/State'') then city t = Some [] \<and> state t = None
            else r ''City/State'' = Some cs"
  proof (cases "falsy (r ''City/State'')")
    case True
    then have "cs = []" by (simp add: cs_def orDefault_falsy)
    then show ?thesis using True c s by (simp add: trim_Nil)
  next
    case False
    then show ?thesis by (auto simp: cs_def falsy_def orDefault_def)
  qed
  show ?thesis
    by (rule bexI[OF _ r], rule exI[of _ k], rule exI[of _ cs]) (use b c s f cs_def in blast)
qed

text \<open>A row whose cell City/State holds " Austin ", a line break and " TX".\<close>

theorem parseCSV_city_state_witness:
  "\<exists>r\<in>set (papaParse (hostWithRows [austinRow]) ''csv''). \<exists>k cs.
       buildRow (hostWithRows [austinRow]) ''f1'' k r
         = Some \<lparr> txId = ''id0'', date = DateTV 1710460800000, description = ''TACO TRUCK'',
               amount = Fin (25 / 2), category = ''Other'', city = Some ''Austin'',
               state = Some ''TX'', fileId = ''f1'' \<rparr>
     \<and> cs = '' Austin '' @ [CHR 0x0A] @ '' TX''
     \<and> trim (takeWhile (\<lambda>c. \<not> isNewline c) cs) = ''Austin''
     \<and> trim (takeWhile (\<lambda>c. \<not> isNewline c) (tl (dropWhile (\<lambda>c. \<not> isNewline c) cs))) = ''TX''"
proof -
  let ?h = "hostWithRows [austinRow]"
  let ?t = "\<lparr> txId = ''id0'', date = DateTV 1710460800000, description = ''TACO TRUCK'',
               amount = Fin (25 / 2), category = ''Other'', city = Some ''Austin'',
               state = Some ''TX'', fileId = ''f1'' \<rparr>"
  have mem: "?t \<in> set (parseCSV ?h ''csv'' ''f1'')"
    by (simp only: parseCSV_austin) simp
  obtain r k cs where r: "r \<in> set (papaParse ?h ''csv'')"
    and b: "buildRow ?h ''f1'' k r = Some ?t"
    and cs: "cs = orDefault (r ''City/State'') []"
    and c: "city ?t = Some (trim (takeWhile (\<lambda>c. \<not> isNewline c) cs))"
    and s: "state ?t =
             (if list_ex isNewline cs
              then Some (trim (takeWhile (\<lambda>c. \<not> isNewline c)
                     (tl (dropWhile (\<lambda>c. \<not> isNewline c) cs))))
              else None)"
    using parseCSV_city_state[OF mem] by (elim bexE exE conjE)
  have "r = austinRow" using r by (simp add: hostWithRows_sel)
  then have cs': "cs = '' Austin '' @ [CHR 0x0A] @ '' TX''"
    using cs by (simp add: austinRow_def orDefault_def)
  then have nl: "list_ex isNewline cs" by (simp add: isNewline_def)
  have c': "trim (takeWhile (\<lambda>c. \<not> isNewline c) cs) = ''Austin''"
    using c by simp
  have s': "trim (takeWhile (\<lambda>c. \<not> isNewline c) (tl (dropWhile (\<lambda>c. \<not> isNewline c) cs))) = ''TX''"
    using s nl by (simp only: if_True) simp
  show ?thesis
    by (rule bexI[OF _ r], rule exI[of _ k], rule exI[of _ cs]) (intro conjI b cs' c' s')
qed

subsection \<open>C6: the keywords of the Restaurant group\<close>

text \<open>
  C6, as stated, fails: the string "cafe" contains "cafe" and normalises to "Other",
  not to "Restaurant".
\<close>

theorem simplifyCategory_cafe_counterexample:
  "includesStr (toLowerCase ''cafe'') ''cafe'' \<and> simplifyCategory ''cafe'' \<noteq> ''Restaurant''"
  by code_simp

text \<open>
  C6, amended. Every input string that contains "restaurant", "food" or "fast food",
  in any casing, normalises to "Restaurant"; the unaccented "cafe" is not one of the
  keywords, and the input "cafe" normalises to "Other".
\<close>

theorem simplifyCategory_restaurant_keywords:
  assumes "s = a @ u @ b"
    and "toLowerCase u = ''restaurant'' \<or> toLowerCase u = ''food'' \<or> toLowerCase u = ''fast food''"
  shows "simplifyCategory s = ''Restaurant'' \<and> simplifyCategory ''cafe'' = ''Other''"
proof
  have "includesStr (toLowerCase s) ''restaurant'' \<or> includesStr (toLowerCase s) ''food''
     \<or> includesStr (toLowerCase s) ''fast food''"
    using assms includes_lower[OF assms(1)] by blast
  then show "simplifyCategory s = ''Restaurant''" by (rule simplifyCategory_restaurant)
  show "simplifyCategory ''cafe'' = ''Other''" by code_simp
qed

text \<open>The input "Joe's Fast Food Cafe" contains "fast food" in another casing.\<close>

theorem simplifyCategory_restaurant_keywords_witness:
  "simplifyCategory ''Joe's Fast Food Cafe'' = ''Restaurant''"
proof -
  have 1: "''Joe's Fast Food Cafe'' = ''Joe's '' @ ''Fast Food'' @ '' Cafe''" by simp
  have 2: "toLowerCase ''Fast Food'' = ''fast food''" by code_simp
  show ?thesis
    using simplifyCategory_restaurant_keywords[OF 1 disjI2[OF disjI2[OF 2]]] by (rule conjunct1)
qed

subsection \<open>C7: keyword precedence of the category normaliser\<close>

text \<open>
  C7. Every input string that contains both "restaurant" and "fee", each in any casing,
  normalises to "Restaurant": the group of "restaurant" is tested before the group of
  "fee", and the first group that matches wins.
\<close>

theorem simplifyCategory_restaurant_before_fee:
  assumes "s = a @ u @ b" and "toLowerCase u = ''restaurant''"
    and "s = c @ v @ d" and "toLowerCase v = ''fee''"
  shows "simplifyCategory s = ''Restaurant''"
proof -
  have "includesStr (toLowerCase s) ''restaurant''"
    using assms(1,2) by (rule includes_lower)
  then show ?thesis by (intro simplifyCategory_restaurant disjI1)
qed

text \<open>The input "Late FEE - Restaurant Week" holds both keywords, in mixed casing.\<close>

theorem simplifyCategory_restaurant_before_fee_witness:
  "simplifyCategory ''Late FEE - Restaurant Week'' = ''Restaurant''"
proof -
  have 1: "''Late FEE - Restaurant Week'' = ''Late FEE - '' @ ''Restaurant'' @ '' Week''" by simp
  have 2: "toLowerCase ''Restaurant'' = ''restaurant''" by code_simp
  have 3: "''Late FEE - Restaurant Week'' = ''Late '' @ ''FEE'' @ '' - Restaurant Week''" by simp
  have 4: "toLowerCase ''FEE'' = ''fee''" by code_simp
  show ?thesis by (rule simplifyCategory_restaurant_before_fee[OF 1 2 3 4])
qed

subsection \<open>C8: category totals\<close>

text \<open>
  C8, as stated, fails in binary64 arithmetic: for the amounts 1, \<open>10^16\<close> and 1 in
  the categories Groceries, Travel and Groceries, the totals are \<open>10^16\<close> and 2 and
  sum to \<open>10^16 + 2\<close>, while the amounts summed in input order give \<open>10^16\<close>.
\<close>

theorem getCategoryTotals_sum_counterexample:
  "foldl num_add (Fin 0)
     (map ct_total (getCategoryTotals
        [sampleTx ''A'' (Fin 1) ''Groceries'', sampleTx ''B'' (Fin 10000000000000000) ''Travel'',
         sampleTx ''C'' (Fin 1) ''Groceries''])) = Fin 10000000000000002
   \<and> foldl num_add (Fin 0)
     (map amount
        [sampleTx ''A'' (Fin 1) ''Groceries'', sampleTx ''B'' (Fin 10000000000000000) ''Travel'',
         sampleTx ''C'' (Fin 1) ''Groceries'']) = Fin 10000000000000000"
  by (simp add: getCategoryTotals_def groupTotals_def addTo_def mapGet_def sampleTx_def
      sortBy_def byCtTotalDesc_def evals)

text \<open>
  C8, amended. For every record sequence, the output of \<open>getCategoryTotals\<close> has
  exactly one entry for each category that occurs; the total of an entry is the
  floating-point sum, in input order and starting from 0, of the amounts of the records
  of its category, its count is their number, and the counts add up to the number of
  records; when all amounts are positive, the output is sorted non-increasing by
  total. (The sum of the totals agrees with the direct sum of all amounts only up to
  floating-point rounding.)
\<close>

theorem getCategoryTotals_partition_sorted:
  "((\<forall>t\<in>set ts. num_lt (Fin 0) (amount t)) \<longrightarrow>
      sorted_wrt (\<lambda>a b. num_le (ct_total b) (ct_total a)) (getCategoryTotals ts))
   \<and> distinct (map ct_category (getCategoryTotals ts))
   \<and> set (map ct_category (getCategoryTotals ts)) = category ` set ts
   \<and> (\<forall>e\<in>set (getCategoryTotals ts).
        ct_total e = foldl num_add (Fin 0)
                       (map amount (filter (\<lambda>t. category t = ct_category e) ts))
      \<and> ct_count e = length (filter (\<lambda>t. category t = ct_category e) ts))
   \<and> sum_list (map ct_count (getCategoryTotals ts)) = length ts"
proof -
  have 1: "sorted_wrt (\<lambda>a b. num_le (ct_total b) (ct_total a)) (getCategoryTotals ts)"
    if pos: "\<forall>t\<in>set ts. num_lt (Fin 0) (amount t)"
  proof -
    have good: "\<forall>e\<in>set (categoryEntries ts). goodTotal (ct_total e)"
      using goodTotal_groupTotals[OF pos] categoryEntries_entry by blast
    show ?thesis
      unfolding getCategoryTotals_entries
      by (rule sorted_by_total) (simp_all add: byCtTotalDesc_def good)
  qed
  have 2: "distinct (map ct_category (getCategoryTotals ts))"
    by (simp add: getCategoryTotals_entries distinct_map_sortBy categoryEntries_keys
        distinct_groupTotals)
  have "set (map ct_category (getCategoryTotals ts)) = set (map ct_category (categoryEntries ts))"
    by (simp add: getCategoryTotals_entries set_sortBy)
  then have 3: "set (map ct_category (getCategoryTotals ts)) = category ` set ts"
    using keys_groupTotals[of category ts] by (simp add: categoryEntries_keys)
  have 4: "ct_total e = foldl num_add (Fin 0)
                           (map amount (filter (\<lambda>t. category t = ct_category e) ts))
          \<and> ct_count e = length (filter (\<lambda>t. category t = ct_category e) ts)"
    if "e \<in> set (getCategoryTotals ts)" for e
  proof -
    from that have "e \<in> set (categoryEntries ts)"
      by (simp add: getCategoryTotals_entries set_sortBy)
    then show ?thesis using entry_groupTotals[OF categoryEntries_entry] by blast
  qed
  have 5: "sum_list (map ct_count (getCategoryTotals ts)) = length ts"
    by (simp add: getCategoryTotals_entries sum_list_sortBy categoryEntries_counts
        counts_groupTotals)
  show ?thesis using 1 2 3 4 5 by blast
qed

text \<open>
  Two records of the category Groceries with the amounts 30 and 20.5 and one of the
  category Travel with the amount 100: the entries, their order and the sum of the
  counts.
\<close>

theorem getCategoryTotals_partition_sorted_witness:
  "getCategoryTotals [sampleTx ''A'' (Fin 30) ''Groceries'', sampleTx ''B'' (Fin 100) ''Travel'',
        sampleTx ''C'' (Fin (41 / 2)) ''Groceries'']
     = [\<lparr>ct_category = ''Travel'', ct_total = Fin 100, ct_count = 1, ct_color = ''#8b5cf6''\<rparr>,
        \<lparr>ct_category = ''Groceries'', ct_total = Fin (101 / 2), ct_count = 2,
          ct_color = ''#f97316''\<rparr>]
   \<and> sorted_wrt (\<lambda>a b. num_le (ct_total b) (ct_total a))
        (getCategoryTotals [sampleTx ''A'' (Fin 30) ''Groceries'', sampleTx ''B'' (Fin 100) ''Travel'',
           sampleTx ''C'' (Fin (41 / 2)) ''Groceries''])
   \<and> sum_list (map ct_count
        (getCategoryTotals [sampleTx ''A'' (Fin 30) ''Groceries'', sampleTx ''B'' (Fin 100) ''Travel'',
           sampleTx ''C'' (Fin (41 / 2)) ''Groceries''])) = 3"
proof -
  let ?ts = "[sampleTx ''A'' (Fin 30) ''Groceries'', sampleTx ''B'' (Fin 100) ''Travel'',
        sampleTx ''C'' (Fin (41 / 2)) ''Groceries'']"
  have pos: "\<forall>t\<in>set ?ts. num_lt (Fin 0) (amount t)"
    by (simp add: sampleTx_sel)
  have val: "getCategoryTotals ?ts
     = [\<lparr>ct_category = ''Travel'', ct_total = Fin 100, ct_count = 1, ct_color = ''#8b5cf6''\<rparr>,
        \<lparr>ct_category = ''Groceries'', ct_total = Fin (101 / 2), ct_count = 2,
          ct_color = ''#f97316''\<rparr>]"
    by (simp add: getCategoryTotals_def groupTotals_def addTo_def mapGet_def sampleTx_sel
      sortBy_def byCtTotalDesc_def evals round64_30 round64_100 round64_101_2 onGrid_101_2
      getCategoryColor_examples)
  show ?thesis
    using getCategoryTotals_partition_sorted[of ?ts] pos val by simp
qed

subsection \<open>C9: amounts of built records\<close>

text \<open>
  C9. Every record that \<open>parseCSV\<close> produces has a strictly positive amount, the
  parsed amount of one of the rows; an amount that cannot be parsed counts as zero,
  and a row whose parsed amount is zero or less yields no record.
\<close>

theorem parseCSV_amount_positive:
  "(\<forall>t\<in>set (parseCSV h csvContent fid).
      num_lt (Fin 0) (amount t)
    \<and> (\<exists>r\<in>set (papaParse h csvContent). \<exists>s. r ''Amount'' = Some s \<and> amount t = parseAmount s))
   \<and> (parseFloat (cleanAmount s) = NaN \<longrightarrow> parseAmount s = Fin 0)
   \<and> (r ''Amount'' = Some s \<and> num_le (parseAmount s) (Fin 0) \<longrightarrow> buildRow h fid k r = None)"
proof (intro conjI ballI impI)
  fix t
  assume mem: "t \<in> set (parseCSV h csvContent fid)"
  obtain r' k' where r': "r' \<in> set (papaParse h csvContent)" and b: "buildRow h fid k' r' = Some t"
    using parseCSV_origin[OF mem] by blast
  obtain s' where s': "r' ''Amount'' = Some s'" "amount t = parseAmount s'"
    and pos: "num_lt (Fin 0) (amount t)"
    using buildRow_amount[OF b] by blast
  show "num_lt (Fin 0) (amount t)" by (rule pos)
  show "\<exists>r\<in>set (papaParse h csvContent). \<exists>s. r ''Amount'' = Some s \<and> amount t = parseAmount s"
    by (rule bexI[OF _ r'], rule exI[of _ s'], rule conjI) (rule s')+
next
  assume "parseFloat (cleanAmount s) = NaN"
  then show "parseAmount s = Fin 0" by (rule parseAmount_unparsable)
next
  assume a: "r ''Amount'' = Some s \<and> num_le (parseAmount s) (Fin 0)"
  from a have 1: "r ''Amount'' = Some s" by (rule conjunct1)
  from a have 2: "num_le (parseAmount s) (Fin 0)" by (rule conjunct2)
  show "buildRow h fid k r = None" by (rule buildRow_dropped[where r = r and s = s, OF 1 2])
qed

text \<open>
  Three rows, with the amounts "$12.50", "-45.00" (a payment) and "abc": only the first
  yields a record.
\<close>

theorem parseCSV_amount_positive_witness:
  "map amount (parseCSV (hostWithRows [starbucksRow, paymentRow, unparsableRow]) ''csv'' ''f1'')
     = [Fin (25 / 2)]
   \<and> list_all (\<lambda>t. num_lt (Fin 0) (amount t))
       (parseCSV (hostWithRows [starbucksRow, paymentRow, unparsableRow]) ''csv'' ''f1'')
   \<and> parseFloat (cleanAmount ''abc'') = NaN \<and> parseAmount ''abc'' = Fin 0
   \<and> paymentRow ''Amount'' = Some ''-45.00'' \<and> num_le (parseAmount ''-45.00'') (Fin 0)
   \<and> buildRow (hostWithRows [starbucksRow, paymentRow, unparsableRow]) ''f1'' 0 paymentRow = None"
proof -
  let ?h = "hostWithRows [starbucksRow, paymentRow, unparsableRow]"
  note abc = parseCSV_amount_positive[of ?h "''csv''" "''f1''" "''abc''" paymentRow 0]
  note pay = parseCSV_amount_positive[of ?h "''csv''" "''f1''" "''-45.00''" paymentRow 0]
  have val: "map amount (parseCSV ?h ''csv'' ''f1'') = [Fin (25 / 2)]"
    by (simp add: parseCSV_starbucks)
  have "\<forall>t\<in>set (parseCSV ?h ''csv'' ''f1''). num_lt (Fin 0) (amount t)"
  proof
    fix t
    assume "t \<in> set (parseCSV ?h ''csv'' ''f1'')"
    then have "num_lt (Fin 0) (amount t)
      \<and> (\<exists>r\<in>set (papaParse ?h ''csv''). \<exists>s. r ''Amount'' = Some s \<and> amount t = parseAmount s)"
      by (rule bspec[OF conjunct1[OF abc]])
    then show "num_lt (Fin 0) (amount t)" by (rule conjunct1)
  qed
  then have all: "list_all (\<lambda>t. num_lt (Fin 0) (amount t)) (parseCSV ?h ''csv'' ''f1'')"
    by (simp only: list_all_iff)
  have nan: "parseFloat (cleanAmount ''abc'') = NaN"
    by (simp add: parse_defs)
  have "parseFloat (cleanAmount ''abc'') = NaN \<longrightarrow> parseAmount ''abc'' = Fin 0"
    using abc by (elim conjE)
  then have zero: "parseAmount ''abc'' = Fin 0" using nan by (rule mp)
  have cell: "paymentRow ''Amount'' = Some ''-45.00''" by (simp add: paymentRow_def)
  have le: "num_le (parseAmount ''-45.00'') (Fin 0)"
    by (simp add: parseAmount_examples num_le_def)
  have "paymentRow ''Amount'' = Some ''-45.00'' \<and> num_le (parseAmount ''-45.00'') (Fin 0)
      \<longrightarrow> buildRow ?h ''f1'' 0 paymentRow = None"
    using pay by (elim conjE)
  then have none: "buildRow ?h ''f1'' 0 paymentRow = None" using cell le by simp
  show ?thesis using val all nan zero cell le none by (intro conjI)
qed

subsection \<open>C10: descriptions that begin with a digit\<close>

text \<open>
  C10. The merchant name of a description that begins with a digit is the empty string.
  So, when the limit does not cut the list, the result of \<open>getTopMerchants\<close> has
  exactly one entry whose name is the empty string, and it aggregates all records whose
  merchant name is empty, whatever their full descriptions: its count is their number
  and its total the sum of their amounts.
\<close>

theorem merchant_digit_bucket:
  assumes "t \<in> set ts" and "description t = c # rest" and "isDigit c"
    and "num_le (Fin (of_nat (card (merchantOf ` set ts)))) limit"
  shows "merchantOf t = []
       \<and> (\<exists>e\<in>set (getTopMerchants ts (Some limit)).
             mt_name e = []
           \<and> mt_count e = length (filter (\<lambda>u. merchantOf u = []) ts)
           \<and> mt_total e = foldl num_add (Fin 0) (map amount (filter (\<lambda>u. merchantOf u = []) ts))
           \<and> (\<forall>e'\<in>set (getTopMerchants ts (Some limit)). mt_name e' = [] \<longrightarrow> e' = e))"
proof -
  define S where "S = sortBy byMtTotalDesc (merchantEntries ts)"
  have res: "getTopMerchants ts (Some limit) = S"
    using assms(4)
    by (simp add: getTopMerchants_entries S_def slice0_all length_sortBy length_merchantEntries)
  have m: "merchantOf t = []"
    using assms(2,3) by (simp add: merchantOf_def merchantName_digit)
  have dist: "distinct (map mt_name S)"
    by (simp add: S_def distinct_map_sortBy merchantEntries_keys distinct_groupTotals)
  have "[] \<in> merchantOf ` set ts" using assms(1) m by force
  then have "[] \<in> set (map mt_name S)"
    by (simp add: S_def set_sortBy merchantEntries_names)
  then obtain e where e: "e \<in> set S" "mt_name e = []" by auto
  then have "e \<in> set (merchantEntries ts)" by (simp add: S_def set_sortBy)
  then have "([], mt_total e, mt_count e) \<in> set (groupTotals merchantOf ts)"
    using merchantEntries_entry[of e ts] e(2) by simp
  then have vals: "mt_total e = foldl num_add (Fin 0) (map amount (filter (\<lambda>u. merchantOf u = []) ts))"
      "mt_count e = length (filter (\<lambda>u. merchantOf u = []) ts)"
    using entry_groupTotals[of "[]" "mt_total e" "mt_count e" merchantOf ts] by simp_all
  have uniq: "e' = e" if "e' \<in> set S" "mt_name e' = []" for e'
    using dist e that by (metis distinct_map inj_onD)
  show ?thesis unfolding res using m e vals uniq by blast
qed

text \<open>
  Two descriptions that begin with a digit, and a third one: the two share the entry
  with the empty name.
\<close>

theorem merchant_digit_bucket_witness:
  "merchantOf (sampleTx ''7-ELEVEN'' (Fin 2) ''Other'') = []
   \<and> (\<exists>e\<in>set (getTopMerchants
          [sampleTx ''7-ELEVEN'' (Fin 2) ''Other'', sampleTx ''365 MARKET'' (Fin 1) ''Other'',
           sampleTx ''ACME'' (Fin 1) ''Other''] (Some (Fin 10))).
        mt_name e = [] \<and> mt_count e = 2)"
proof -
  let ?t = "sampleTx ''7-ELEVEN'' (Fin 2) ''Other''"
  let ?ts = "[?t, sampleTx ''365 MARKET'' (Fin 1) ''Other'', sampleTx ''ACME'' (Fin 1) ''Other'']"
  have 1: "?t \<in> set ?ts" by simp
  have 2: "description ?t = CHR ''7'' # ''-ELEVEN''" by (simp add: sampleTx_sel)
  have 3: "isDigit (CHR ''7'')" by (simp add: isDigit_def charCode_def)
  have "merchantOf ` set ?ts = {[], ''ACME''}" by (simp add: ex_merchants)
  then have "card (merchantOf ` set ?ts) = 2" by simp
  then have 4: "num_le (Fin (of_nat (card (merchantOf ` set ?ts)))) (Fin 10)"
    by (simp add: num_le_def)
  have 5: "length (filter (\<lambda>u. merchantOf u = []) ?ts) = 2" by (simp add: ex_merchants)
  note inst = merchant_digit_bucket[OF 1 2 3 4]
  from inst have m: "merchantOf ?t = []" by (rule conjunct1)
  from inst obtain e where e: "e \<in> set (getTopMerchants ?ts (Some (Fin 10)))"
      "mt_name e = []" "mt_count e = length (filter (\<lambda>u. merchantOf u = []) ?ts)"
    by (elim conjE bexE)
  from e(3) have "mt_count e = 2" by (simp only: 5)
  with e(1,2) have "\<exists>e\<in>set (getTopMerchants ?ts (Some (Fin 10))). mt_name e = [] \<and> mt_count e = 2"
    by (intro bexI[of _ e] conjI)
  with m show ?thesis by (rule conjI)
qed

end
